theory Spec2Isabelle
  imports Main "HOL-Library.Sublist"
begin

section \<open>Strings as the scraper uses them\<close>

text \<open>
  Python's \<^verbatim>\<open>str\<close> is modelled by \<^typ>\<open>string\<close> restricted to ASCII text: one
  \<^typ>\<open>char\<close> per character. \<^verbatim>\<open>str.isspace\<close>, \<^verbatim>\<open>str.strip\<close>, \<^verbatim>\<open>str.split\<close> and the
  regular expression class \<^verbatim>\<open>\s\<close> agree on the ASCII whitespace characters: codes 9 to 13
  and 28 to 32. \<^verbatim>\<open>str.lower\<close> and \<^verbatim>\<open>re.IGNORECASE\<close> fold the letters A to Z. The test
  \<^verbatim>\<open>needle in hay\<close> on strings is \<^term>\<open>sublist needle hay\<close>.
\<close>

definition isspace :: "char \<Rightarrow> bool" where
  "isspace c = (let n = (of_char c :: nat) in (9 \<le> n \<and> n \<le> 13) \<or> (28 \<le> n \<and> n \<le> 32))"

definition lower_char :: "char \<Rightarrow> char" where
  "lower_char c = (let n = (of_char c :: nat) in if 65 \<le> n \<and> n \<le> 90 then char_of (n + 32) else c)"

definition lower :: "string \<Rightarrow> string" where
  "lower s = map lower_char s"

text \<open>\<^verbatim>\<open>s.strip()\<close>: leading and trailing whitespace removed.\<close>

definition strip :: "string \<Rightarrow> string" where
  "strip s = rev (dropWhile isspace (rev (dropWhile isspace s)))"

text \<open>
  \<^verbatim>\<open>s.split()\<close>: the maximal runs of characters that are not whitespace, in order.
\<close>

function str_split :: "string \<Rightarrow> string list" where
  "str_split s =
     (let w = dropWhile isspace s in
      if w = [] then []
      else takeWhile (\<lambda>c. \<not> isspace c) w # str_split (dropWhile (\<lambda>c. \<not> isspace c) w))"
  by pat_completeness auto
termination
proof (relation "measure length")
  show "wf (measure (length :: string \<Rightarrow> nat))" by simp
next
  fix s w :: string
  assume w: "w = dropWhile isspace s" and ne: "w \<noteq> []"
  from ne obtain c cs where c: "w = c # cs" by (cases w) auto
  have "\<not> isspace (hd w)" using hd_dropWhile [of isspace s] w ne by blast
  with c have "\<not> isspace c" by simp
  with c have "dropWhile (\<lambda>c. \<not> isspace c) w = dropWhile (\<lambda>c. \<not> isspace c) cs" by simp
  then have "length (dropWhile (\<lambda>c. \<not> isspace c) w) \<le> length cs"
    by (simp add: length_dropWhile_le)
  also have "\<dots> < length w" using c by simp
  also have "\<dots> \<le> length s" using w by (simp add: length_dropWhile_le)
  finally show "(dropWhile (\<lambda>c. \<not> isspace c) w, s) \<in> measure length" by simp
qed

declare str_split.simps [simp del]

text \<open>
  \<^verbatim>\<open>sep.join(words)\<close>.
\<close>

fun str_join :: "string \<Rightarrow> string list \<Rightarrow> string" where
  "str_join sep [] = []"
| "str_join sep [w] = w"
| "str_join sep (w # v # ws) = w @ sep @ str_join sep (v # ws)"

text \<open>
  \<^verbatim>\<open>s.replace(c, '')\<close> for a single character \<open>c\<close>: every occurrence is dropped.
\<close>

definition str_replace_char :: "char \<Rightarrow> string \<Rightarrow> string" where
  "str_replace_char c s = filter (\<lambda>x. x \<noteq> c) s"

text \<open>
  The decimal text of an integer, as an f-string formats it.
\<close>

definition digit_char :: "nat \<Rightarrow> char" where
  "digit_char n = char_of (48 + n)"

fun str_nat :: "nat \<Rightarrow> string" where
  "str_nat n = (if n < 10 then [digit_char n] else str_nat (n div 10) @ [digit_char (n mod 10)])"

declare str_nat.simps [simp del]

definition str_int :: "int \<Rightarrow> string" where
  "str_int i = (if i < 0 then CHR ''-'' # str_nat (nat (- i)) else str_nat (nat i))"

text \<open>
  \<^verbatim>\<open>int(s)\<close> on an ASCII text: the characters that C's \<^verbatim>\<open>isspace\<close> accepts (codes 9 to 13
  and 32) are skipped before and behind the number; the separators 28 to 31, which
  \<^verbatim>\<open>str.strip\<close> removes, are not, so \<^verbatim>\<open>int\<close> refuses a text that holds one. One sign may
  come first; then decimal digits, where a single underscore may stand between two
  digits; leading zeros are accepted. CPython refuses a text of more than 4300 digits.
  \<open>None\<close> is the \<^verbatim>\<open>ValueError\<close>.
\<close>

definition int_isspace :: "char \<Rightarrow> bool" where
  "int_isspace c = (let n = (of_char c :: nat) in (9 \<le> n \<and> n \<le> 13) \<or> n = 32)"

definition digit_val :: "char \<Rightarrow> nat option" where
  "digit_val c =
     (let n = (of_char c :: nat) in if 48 \<le> n \<and> n \<le> 57 then Some (n - 48) else None)"

fun int_digits :: "nat \<Rightarrow> string \<Rightarrow> nat option" where
  "int_digits acc [] = Some acc"
| "int_digits acc (c # cs) =
     (if c = CHR ''_'' then
        (case cs of
           [] \<Rightarrow> None
         | d # ds \<Rightarrow>
             (case digit_val d of None \<Rightarrow> None | Some v \<Rightarrow> int_digits (10 * acc + v) ds))
      else (case digit_val c of None \<Rightarrow> None | Some v \<Rightarrow> int_digits (10 * acc + v) cs))"

definition int_unsigned :: "string \<Rightarrow> nat option" where
  "int_unsigned s =
     (case s of
        [] \<Rightarrow> None
      | c # cs \<Rightarrow>
          if 4300 < length (filter (\<lambda>x. x \<noteq> CHR ''_'') s) then None
          else (case digit_val c of None \<Rightarrow> None | Some v \<Rightarrow> int_digits v cs))"

definition py_int :: "string \<Rightarrow> int option" where
  "py_int s =
     (case rev (dropWhile int_isspace (rev (dropWhile int_isspace s))) of
        [] \<Rightarrow> None
      | c # cs \<Rightarrow>
          if c = CHR ''-'' then map_option (\<lambda>n. - int n) (int_unsigned cs)
          else if c = CHR ''+'' then map_option int (int_unsigned cs)
          else map_option int (int_unsigned (c # cs)))"

section \<open>Parsed markup and the field extractor of scraper.py\<close>

text \<open>
  A listing node is a tree as BeautifulSoup holds it: an element with its name, its
  attributes and its children, or a text. \<open>descendants\<close> lists the nodes below a node in
  document order, the order in which \<^verbatim>\<open>find\<close> and \<^verbatim>\<open>find_all\<close> search. Comments and other
  kinds of strings are not modelled.
\<close>

datatype node = Element string "(string \<times> string) list" "node list" | Text string

fun descendants :: "node \<Rightarrow> node list" where
  "descendants (Element name attrs children) = concat (map (\<lambda>c. c # descendants c) children)"
| "descendants (Text s) = []"

text \<open>
  \<^verbatim>\<open>node.text\<close>: the texts below the node, concatenated.
\<close>

fun get_text :: "node \<Rightarrow> string" where
  "get_text (Element name attrs children) = concat (map get_text children)"
| "get_text (Text s) = s"

fun attr :: "node \<Rightarrow> string \<Rightarrow> string option" where
  "attr (Element name attrs children) a = map_of attrs a"
| "attr (Text s) a = None"

fun is_tag :: "string \<Rightarrow> node \<Rightarrow> bool" where
  "is_tag t (Element name attrs children) = (name = t)"
| "is_tag t (Text s) = False"

text \<open>
  The filter \<^verbatim>\<open>class_=c\<close>: the \<^verbatim>\<open>class\<close> attribute is split at whitespace, and the node matches
  when one of its classes is \<open>c\<close> or when the classes joined by single blanks are \<open>c\<close> (the
  only way for a \<open>c\<close> that holds a blank, as \<^verbatim>\<open>'metadata salary-snippet-container'\<close>).
\<close>

definition has_class :: "string \<Rightarrow> node \<Rightarrow> bool" where
  "has_class c n =
     (case attr n ''class'' of
        None \<Rightarrow> False
      | Some v \<Rightarrow> (let cs = str_split v in c \<in> set cs \<or> str_join '' '' cs = c))"

text \<open>
  The filter \<^verbatim>\<open>{a: v}\<close> for an attribute of one value: the attribute is there and equals \<open>v\<close>.
\<close>

definition has_attr :: "string \<Rightarrow> string \<Rightarrow> node \<Rightarrow> bool" where
  "has_attr a v n = (attr n a = Some v)"

text \<open>
  \<^verbatim>\<open>box.find(t, ...)\<close> is the first matching element below the box, \<open>None\<close> when there is
  none; \<^verbatim>\<open>soup.find_all(t, ...)\<close> is the list of all of them.
\<close>

definition bs_find :: "string \<Rightarrow> (node \<Rightarrow> bool) \<Rightarrow> node \<Rightarrow> node option" where
  "bs_find t p box = find (\<lambda>n. is_tag t n \<and> p n) (descendants box)"

definition bs_find_all :: "string \<Rightarrow> (node \<Rightarrow> bool) \<Rightarrow> node \<Rightarrow> node list" where
  "bs_find_all t p soup = filter (\<lambda>n. is_tag t n \<and> p n) (descendants soup)"

text \<open>
  The exceptions that the modelled code raises and does not catch.
\<close>

datatype py_error = AttributeError | TypeError | ValueError | IndexError

text \<open>
  One row of the result: the dictionary that \<^verbatim>\<open>extract_job_data\<close> returns, with its seven
  keys.
\<close>

record job =
  Link :: string
  Job_Title :: string
  Company :: string
  Date_Posted :: string
  Location :: string
  Salary :: string
  Job_Type :: string

text \<open>
  \<^verbatim>\<open>extract_date_posted\<close>: the three candidate elements are looked up, and the text of the
  first one that is there is returned (a tag is always true as a condition).
\<close>

fun first_present :: "node option list \<Rightarrow> string" where
  "first_present [] = ''N/A''"
| "first_present (None # es) = first_present es"
| "first_present (Some e # es) = strip (get_text e)"

definition extract_date_posted :: "node \<Rightarrow> string" where
  "extract_date_posted box =
     first_present
       [bs_find ''span'' (has_class ''date'') box,
        bs_find ''span'' (has_attr ''data-testid'' ''myJobsStateDate'') box,
        bs_find ''span'' (has_attr ''data-testid'' ''job-age'') box]"

definition extract_job_type :: "node \<Rightarrow> string" where
  "extract_job_type box =
     (case bs_find ''div'' (has_class ''metadata'') box of
        Some job_type_element \<Rightarrow>
          (let job_type_text = lower (strip (get_text job_type_element)) in
           if sublist ''full-time'' job_type_text then ''Full-time''
           else if sublist ''part-time'' job_type_text then ''Part-time''
           else ''Unknown'')
      | None \<Rightarrow> ''Unknown'')"

text \<open>
  The conditional expression \<^verbatim>\<open>e.text.strip() if e else 'N/A'\<close> of lines 151 to 155.
\<close>

definition text_or_na :: "node option \<Rightarrow> string" where
  "text_or_na e = (case e of Some n \<Rightarrow> strip (get_text n) | None \<Rightarrow> ''N/A'')"

text \<open>
  Line 150, \<^verbatim>\<open>link = country + box.find('a').get('href')\<close>: without an anchor,
  \<^verbatim>\<open>find\<close> returns \<^verbatim>\<open>None\<close> and \<^verbatim>\<open>.get\<close> raises \<^verbatim>\<open>AttributeError\<close>; for an anchor without
  \<^verbatim>\<open>href\<close>, \<^verbatim>\<open>.get\<close> returns \<^verbatim>\<open>None\<close> and the concatenation raises \<^verbatim>\<open>TypeError\<close>. The link is
  computed first, so an exception here leaves no record.
\<close>

definition extract_link :: "node \<Rightarrow> string \<Rightarrow> py_error + string" where
  "extract_link box country =
     (case bs_find ''a'' (\<lambda>n. True) box of
        None \<Rightarrow> Inl AttributeError
      | Some a \<Rightarrow> (case attr a ''href'' of None \<Rightarrow> Inl TypeError | Some h \<Rightarrow> Inr (country @ h)))"

definition extract_job_data :: "node \<Rightarrow> string \<Rightarrow> py_error + job" where
  "extract_job_data box country =
     (case extract_link box country of
        Inl e \<Rightarrow> Inl e
      | Inr link \<Rightarrow>
          Inr \<lparr>Link = link,
               Job_Title = text_or_na (bs_find ''a'' (has_class ''jcs-JobTitle'') box),
               Company = text_or_na (bs_find ''span'' (has_attr ''data-testid'' ''company-name'') box),
               Date_Posted = extract_date_posted box,
               Location = text_or_na (bs_find ''div'' (has_attr ''data-testid'' ''text-location'') box),
               Salary = text_or_na (bs_find ''div'' (has_class ''metadata salary-snippet-container'') box),
               Job_Type = extract_job_type box\<rparr>)"

section \<open>\<^verbatim>\<open>search_jobs\<close> of scraper.py\<close>

text \<open>
  What the browser shows after \<^verbatim>\<open>driver.get(full_url)\<close>: the wait for the count or the
  no-result element times out; or the wait ends and \<^verbatim>\<open>find_element\<close> raises
  \<^verbatim>\<open>NoSuchElementException\<close>; or the count element is there, with its text. The browser is
  the function from the address to what it shows. \<open>full_url\<close> is the f-string of line 65.
  In \<open>search_jobs\<close>, \<^verbatim>\<open>split()[0]\<close> raises \<^verbatim>\<open>IndexError\<close> on a text without a token, and
  only \<^verbatim>\<open>NoSuchElementException\<close> is caught.
\<close>

datatype search_page = LoadTimeout | NoCountElement | CountText string

definition full_url :: "string \<Rightarrow> string \<Rightarrow> string \<Rightarrow> int \<Rightarrow> string" where
  "full_url country job_position job_location days_since =
     country @ ''/jobs?q='' @ str_join ''+'' (str_split job_position)
       @ ''&l='' @ job_location @ ''&fromage='' @ str_int days_since"

definition search_jobs ::
  "(string \<Rightarrow> search_page) \<Rightarrow> string \<Rightarrow> string \<Rightarrow> string \<Rightarrow> int \<Rightarrow> py_error + (string \<times> string)"
where
  "search_jobs driver_get country job_position job_location days_since =
     (let url = full_url country job_position job_location days_since in
      case driver_get url of
        LoadTimeout \<Rightarrow> Inr (url, ''Unknown'')
      | NoCountElement \<Rightarrow> Inr (url, ''Unknown'')
      | CountText t \<Rightarrow>
          (case str_split t of
             [] \<Rightarrow> Inl IndexError
           | w # ws \<Rightarrow>
               Inr (url, str_replace_char CHR ''+'' (str_replace_char CHR '','' w))))"

section \<open>The harvest loop: \<^verbatim>\<open>scrape_job_data\<close> of scraper.py\<close>

text \<open>
  The browser session as the loop uses it, over any type \<open>'d\<close> of session states. Each
  capability takes the state and returns the new one:
  \<^item> \<open>wait_for_listings\<close>: the \<^verbatim>\<open>WebDriverWait(driver, 20)\<close> for an element of class
    \<^verbatim>\<open>job_seen_beacon\<close>; \<open>False\<close> is the \<^verbatim>\<open>TimeoutException\<close>;
  \<^item> \<open>refresh\<close>: \<^verbatim>\<open>driver.refresh()\<close>;
  \<^item> \<open>page_source\<close>: \<^verbatim>\<open>BeautifulSoup(driver.page_source, 'lxml')\<close>, the parsed page;
  \<^item> \<open>wait_for_next_button\<close>: the wait of \<^verbatim>\<open>navigate_to_next_page\<close> for a clickable next
    control; \<open>False\<close> is the \<^verbatim>\<open>TimeoutException\<close> or \<^verbatim>\<open>NoSuchElementException\<close> it catches;
  \<^item> \<open>click_next\<close>: the scripted click and the pause behind it.
\<close>

record 'd browser =
  wait_for_listings :: "'d \<Rightarrow> bool \<times> 'd"
  refresh :: "'d \<Rightarrow> 'd"
  page_source :: "'d \<Rightarrow> node"
  wait_for_next_button :: "'d \<Rightarrow> bool \<times> 'd"
  click_next :: "'d \<Rightarrow> 'd"

definition max_retries :: nat where
  "max_retries = 3"

definition max_jobs :: nat where
  "max_jobs = 15000"

definition navigate_to_next_page :: "'d browser \<Rightarrow> 'd \<Rightarrow> bool \<times> 'd" where
  "navigate_to_next_page br d =
     (case wait_for_next_button br d of
        (True, d1) \<Rightarrow> (True, click_next br d1)
      | (False, d1) \<Rightarrow> (False, d1))"

text \<open>
  The \<^verbatim>\<open>for retry in range(max_retries)\<close> loop over the list of its indices. \<open>True\<close>: the
  loop was left by \<^verbatim>\<open>break\<close> (or ran out), and the page is parsed next. \<open>False\<close>: the wait
  timed out at \<^verbatim>\<open>retry == max_retries - 1\<close>, and the function returns \<^verbatim>\<open>df\<close>.
\<close>

fun wait_loop :: "'d browser \<Rightarrow> nat list \<Rightarrow> 'd \<Rightarrow> bool \<times> 'd" where
  "wait_loop br [] d = (True, d)"
| "wait_loop br (retry # rest) d =
     (case wait_for_listings br d of
        (True, d1) \<Rightarrow> (True, d1)
      | (False, d1) \<Rightarrow>
          if retry = max_retries - 1 then (False, d1)
          else wait_loop br rest (refresh br d1))"

text \<open>
  The \<^verbatim>\<open>for box in boxes\<close> loop: each record is appended to \<^verbatim>\<open>df\<close> and counted; an
  exception of the extractor ends the run.
\<close>

fun scrape_boxes ::
  "string \<Rightarrow> node list \<Rightarrow> job list \<Rightarrow> nat \<Rightarrow> py_error + (job list \<times> nat)"
where
  "scrape_boxes country [] df job_count = Inr (df, job_count)"
| "scrape_boxes country (box # boxes) df job_count =
     (case extract_job_data box country of
        Inl e \<Rightarrow> Inl e
      | Inr job_data \<Rightarrow> scrape_boxes country boxes (df @ [job_data]) (job_count + 1))"

text \<open>
  The condition of line 131: \<^verbatim>\<open>or\<close> and \<^verbatim>\<open>and\<close> evaluate from the left and stop early, so
  \<^verbatim>\<open>int(total_jobs)\<close> runs only when the count is below \<^verbatim>\<open>max_jobs\<close> and \<^verbatim>\<open>total_jobs\<close> is not
  \<^verbatim>\<open>"Unknown"\<close>.
\<close>

definition stop_check :: "nat \<Rightarrow> string \<Rightarrow> py_error + bool" where
  "stop_check job_count total_jobs =
     (if max_jobs \<le> job_count then Inr True
      else if total_jobs \<noteq> ''Unknown'' then
        (case py_int total_jobs of
           None \<Rightarrow> Inl ValueError
         | Some n \<Rightarrow> Inr (n \<le> int job_count))
      else Inr False)"

definition page_boxes :: "'d browser \<Rightarrow> 'd \<Rightarrow> node list" where
  "page_boxes br d = bs_find_all ''div'' (has_class ''job_seen_beacon'') (page_source br d)"

text \<open>
  The \<^verbatim>\<open>while True\<close> loop. \<open>None\<close> is a run that never ends; \<open>Some (Inl e, d)\<close> is a run
  that raises \<open>e\<close>; \<open>Some (Inr df, d)\<close> is a run that returns \<open>df\<close>; \<open>d\<close> is the session state
  the run leaves.
\<close>

partial_function (option) scrape_loop ::
  "'d browser \<Rightarrow> string \<Rightarrow> string \<Rightarrow> 'd \<Rightarrow> job list \<Rightarrow> nat
     \<Rightarrow> ((py_error + job list) \<times> 'd) option"
where
  "scrape_loop br country total_jobs d df job_count =
     (case wait_loop br [0..<max_retries] d of
        (loaded, d1) \<Rightarrow>
          if \<not> loaded then Some (Inr df, d1)
          else
            (case scrape_boxes country (page_boxes br d1) df job_count of
               Inl e \<Rightarrow> Some (Inl e, d1)
             | Inr (df', job_count') \<Rightarrow>
                 (case stop_check job_count' total_jobs of
                    Inl e \<Rightarrow> Some (Inl e, d1)
                  | Inr stop \<Rightarrow>
                      if stop then Some (Inr df', d1)
                      else
                        (case navigate_to_next_page br d1 of
                           (moved, d2) \<Rightarrow>
                             if \<not> moved then Some (Inr df', d2)
                             else scrape_loop br country total_jobs d2 df' job_count'))))"

declare scrape_loop.simps [code]

definition scrape_job_data ::
  "'d browser \<Rightarrow> string \<Rightarrow> string \<Rightarrow> 'd \<Rightarrow> ((py_error + job list) \<times> 'd) option"
where
  "scrape_job_data br country total_jobs d = scrape_loop br country total_jobs d [] 0"

section \<open>Sessions and pages for concrete runs\<close>

text \<open>
  \<open>listing href\<close> is a listing node with one anchor. \<open>paged_browser\<close> shows a list of pages
  one after the other, its state the index of the page; the next control is there while
  a page is left. \<open>endless_browser\<close> shows the same page for ever, and its next control
  always works. In \<open>stalled_browser\<close> no listing ever appears; its state counts the
  reloads.
\<close>

definition listing :: "string \<Rightarrow> node" where
  "listing href = Element ''div'' [(''class'', ''job_seen_beacon'')]
     [Element ''a'' [(''href'', href)] []]"

definition page_of :: "node list \<Rightarrow> node" where
  "page_of boxes = Element ''html'' [] [Element ''body'' [] boxes]"

definition paged_browser :: "node list \<Rightarrow> nat browser" where
  "paged_browser pages =
     \<lparr>wait_for_listings = (\<lambda>d. (d < length pages, d)),
      refresh = (\<lambda>d. d),
      page_source = (\<lambda>d. if d < length pages then pages ! d else page_of []),
      wait_for_next_button = (\<lambda>d. (d + 1 < length pages, d)),
      click_next = (\<lambda>d. d + 1)\<rparr>"

definition endless_browser :: "node \<Rightarrow> nat browser" where
  "endless_browser page =
     \<lparr>wait_for_listings = (\<lambda>d. (True, d)),
      refresh = (\<lambda>d. d),
      page_source = (\<lambda>d. page),
      wait_for_next_button = (\<lambda>d. (True, d)),
      click_next = (\<lambda>d. d + 1)\<rparr>"

definition stalled_browser :: "nat browser" where
  "stalled_browser =
     \<lparr>wait_for_listings = (\<lambda>d. (False, d)),
      refresh = (\<lambda>d. d + 1),
      page_source = (\<lambda>d. page_of []),
      wait_for_next_button = (\<lambda>d. (False, d)),
      click_next = (\<lambda>d. d)\<rparr>"

text \<open>
  The record of a listing that holds nothing but its anchor.
\<close>

definition bare_job :: "string \<Rightarrow> job" where
  "bare_job link =
     \<lparr>Link = link, Job_Title = ''N/A'', Company = ''N/A'', Date_Posted = ''N/A'',
      Location = ''N/A'', Salary = ''N/A'', Job_Type = ''Unknown''\<rparr>"

text \<open>
  Two listings that differ in the salary container only: \<open>priced_listing\<close> has a title
  anchor, the salary container and a second element of class \<^verbatim>\<open>metadata\<close> with the job
  type; \<open>unpriced_listing\<close> is the same listing without the salary container.
\<close>

definition priced_listing :: node where
  "priced_listing =
     Element ''div'' [(''class'', ''job_seen_beacon'')]
       [Element ''a'' [(''class'', ''jcs-JobTitle''), (''href'', ''/rc/clk?jk=7'')] [Text ''Cook''],
        Element ''div'' [(''class'', ''metadata salary-snippet-container'')] [Text ''$50 an hour''],
        Element ''div'' [(''class'', ''metadata'')] [Text ''Part-time'']]"

definition unpriced_listing :: node where
  "unpriced_listing =
     Element ''div'' [(''class'', ''job_seen_beacon'')]
       [Element ''a'' [(''class'', ''jcs-JobTitle''), (''href'', ''/rc/clk?jk=7'')] [Text ''Cook''],
        Element ''div'' [(''class'', ''metadata'')] [Text ''Part-time'']]"

section \<open>Location decomposition: \<^verbatim>\<open>split_work_format_and_location\<close> of main.py\<close>

text \<open>
  \<^verbatim>\<open>re.sub(r'\s+', ' ', location_string)\<close>: every maximal run of whitespace becomes one
  blank.
\<close>

function re_sub_whitespace :: "string \<Rightarrow> string" where
  "re_sub_whitespace [] = []"
| "re_sub_whitespace (c # cs) =
     (if isspace c then CHR '' '' # re_sub_whitespace (dropWhile isspace cs)
      else c # re_sub_whitespace cs)"
  by pat_completeness auto
termination
  by (relation "measure length") (auto simp: le_imp_less_Suc length_dropWhile_le)

text \<open>Line 92 of main.py, the cleanup step: \<^verbatim>\<open>re.sub(r'\s+', ' ', location_string).strip()\<close>.\<close>

definition location_cleanup :: "string \<Rightarrow> string" where
  "location_cleanup s = strip (re_sub_whitespace s)"

text \<open>
  The pattern \<^verbatim>\<open>f'{format}.*?in'\<close> under \<^verbatim>\<open>re.IGNORECASE\<close>. \<open>lazy_until_in\<close> is the part
  \<^verbatim>\<open>.*?in\<close> tried at the head of a string: the lazy star takes the fewest characters, none
  of them a newline (the pattern is compiled without \<^verbatim>\<open>re.DOTALL\<close>), until \<^verbatim>\<open>in\<close> follows;
  the result is what is left of the string behind the match. \<open>match_here\<close> is the whole
  pattern tried at the head of a string.
\<close>

fun lazy_until_in :: "string \<Rightarrow> string option" where
  "lazy_until_in [] = None"
| "lazy_until_in (c # cs) =
     (if lower (take 2 (c # cs)) = ''in'' then Some (drop 2 (c # cs))
      else if c = CHR 0x0A then None
      else lazy_until_in cs)"

definition match_here :: "string \<Rightarrow> string \<Rightarrow> string option" where
  "match_here kw s =
     (if lower (take (length kw) s) = lower kw then lazy_until_in (drop (length kw) s)
      else None)"

text \<open>
  \<^verbatim>\<open>re.sub(f'{format}.*?in', '', location_string, flags=re.IGNORECASE)\<close>: the string is
  scanned from the left and every match is deleted (the call passes no \<^verbatim>\<open>count\<close>); the scan
  goes on behind a match, and moves one character on where the pattern does not match.
\<close>

function re_sub_format :: "string \<Rightarrow> string \<Rightarrow> string" where
  "re_sub_format kw [] = []"
| "re_sub_format kw (c # cs) =
     (case match_here kw (c # cs) of
        Some rest \<Rightarrow> re_sub_format kw rest
      | None \<Rightarrow> c # re_sub_format kw cs)"
  by pat_completeness auto
termination
proof (relation "measure (\<lambda>(kw, s). length s)")
  show "wf (measure (\<lambda>(kw :: string, s :: string). length s))" by simp
next
  fix kw :: string and c :: char and cs rest :: string
  assume m: "match_here kw (c # cs) = Some rest"
  have lazy: "lazy_until_in s = Some r \<Longrightarrow> length r < length s" for s r
    by (induction s) (auto split: if_splits)
  from m have "lazy_until_in (drop (length kw) (c # cs)) = Some rest"
    by (simp add: match_here_def split: if_splits)
  then have "length rest < length (drop (length kw) (c # cs))" by (rule lazy)
  then show "((kw, rest), (kw, c # cs)) \<in> measure (\<lambda>(kw, s). length s)" by simp
next
  fix kw :: string and c :: char and cs :: string
  show "((kw, cs), (kw, c # cs)) \<in> measure (\<lambda>(kw, s). length s)" by simp
qed

definition work_formats :: "string list" where
  "work_formats = [''Hybrid'', ''Remote'', ''In Person'']"

text \<open>
  The \<^verbatim>\<open>for format in work_formats\<close> loop with its \<^verbatim>\<open>break\<close>: the pair of \<^verbatim>\<open>work_format\<close> and
  \<^verbatim>\<open>location_string\<close> when the loop is left.
\<close>

fun format_loop :: "string list \<Rightarrow> string \<Rightarrow> string \<times> string" where
  "format_loop [] s = (''Unknown'', s)"
| "format_loop (f # fs) s =
     (if sublist (lower f) (lower s) then (f, strip (re_sub_format f s))
      else format_loop fs s)"

definition split_work_format_and_location :: "string \<Rightarrow> string \<times> string" where
  "split_work_format_and_location location_string =
     (case format_loop work_formats location_string of
        (work_format, s) \<Rightarrow> (work_format, location_cleanup s))"

text \<open>
  A string is single-spaced when each whitespace character of it is a blank that no
  whitespace follows: the shape of every output of \<open>re_sub_whitespace\<close>.
\<close>

fun single_spaced :: "string \<Rightarrow> bool" where
  "single_spaced [] = True"
| "single_spaced [c] = (isspace c \<longrightarrow> c = CHR '' '')"
| "single_spaced (c # d # cs) =
     ((isspace c \<longrightarrow> c = CHR '' '' \<and> \<not> isspace d) \<and> single_spaced (d # cs))"

text \<open>
  For comparison, the removal as section 4.5 of the specification words it: the first
  occurrence of the keyword is removed together with the following text up to and
  including the next occurrence of \<^verbatim>\<open>in\<close>, whatever that text holds; nothing is removed when
  no \<^verbatim>\<open>in\<close> follows. These three definitions follow the specification, not the source.
\<close>

fun spec_until_in :: "string \<Rightarrow> string option" where
  "spec_until_in [] = None"
| "spec_until_in (c # cs) =
     (if lower (take 2 (c # cs)) = ''in'' then Some (drop 2 (c # cs)) else spec_until_in cs)"

fun spec_remove :: "string \<Rightarrow> string \<Rightarrow> string" where
  "spec_remove kw [] = []"
| "spec_remove kw (c # cs) =
     (if prefix (lower kw) (lower (c # cs))
      then (case spec_until_in (drop (length kw) (c # cs)) of
              Some rest \<Rightarrow> rest
            | None \<Rightarrow> c # cs)
      else c # spec_remove kw cs)"

definition spec_decompose :: "string \<Rightarrow> string \<times> string" where
  "spec_decompose s =
     (case find (\<lambda>f. sublist (lower f) (lower s)) work_formats of
        None \<Rightarrow> (''Unknown'', location_cleanup s)
      | Some f \<Rightarrow> (f, location_cleanup (spec_remove f s)))"

section \<open>Whitespace cleanup\<close>

lemma isspace_blank: "isspace CHR '' ''"
  by (simp add: isspace_def)

lemma single_spaced_Cons:
  "single_spaced (c # cs) \<longleftrightarrow>
     (isspace c \<longrightarrow> c = CHR '' '' \<and> (cs = [] \<or> \<not> isspace (hd cs))) \<and> single_spaced cs"
  by (cases cs) auto

lemma re_sub_whitespace_hd:
  "s = [] \<or> \<not> isspace (hd s) \<Longrightarrow>
     re_sub_whitespace s = [] \<or> \<not> isspace (hd (re_sub_whitespace s))"
  by (cases s) auto

lemma single_spaced_re_sub_whitespace: "single_spaced (re_sub_whitespace s)"
proof (induction s rule: re_sub_whitespace.induct)
  case 1
  then show ?case by simp
next
  case (2 c cs)
  show ?case
  proof (cases "isspace c")
    case True
    have "dropWhile isspace cs = [] \<or> \<not> isspace (hd (dropWhile isspace cs))"
      using hd_dropWhile [of isspace cs] by blast
    then have "re_sub_whitespace (dropWhile isspace cs) = []
        \<or> \<not> isspace (hd (re_sub_whitespace (dropWhile isspace cs)))"
      by (rule re_sub_whitespace_hd)
    with True 2 show ?thesis by (simp add: single_spaced_Cons)
  next
    case False
    with 2 show ?thesis by (simp add: single_spaced_Cons)
  qed
qed

lemma re_sub_whitespace_fixed: "single_spaced s \<Longrightarrow> re_sub_whitespace s = s"
proof (induction s)
  case Nil
  then show ?case by simp
next
  case (Cons c cs)
  then have ss: "single_spaced cs" by (simp add: single_spaced_Cons)
  show ?case
  proof (cases "isspace c")
    case True
    with Cons.prems have c: "c = CHR '' ''" and hd: "cs = [] \<or> \<not> isspace (hd cs)"
      by (simp_all add: single_spaced_Cons)
    from hd have "dropWhile isspace cs = cs" by (simp add: dropWhile_eq_self_iff)
    with True c Cons.IH [OF ss] show ?thesis by simp
  next
    case False
    with Cons.IH [OF ss] show ?thesis by simp
  qed
qed

lemma single_spaced_append_left: "single_spaced (a @ b) \<Longrightarrow> single_spaced a"
proof (induction a)
  case Nil
  then show ?case by simp
next
  case (Cons c a)
  then show ?case by (cases a) (auto simp: single_spaced_Cons)
qed

lemma single_spaced_append_right: "single_spaced (a @ b) \<Longrightarrow> single_spaced b"
  by (induction a) (auto simp: single_spaced_Cons)

lemma single_spaced_dropWhile: "single_spaced s \<Longrightarrow> single_spaced (dropWhile P s)"
  using single_spaced_append_right [of "takeWhile P s" "dropWhile P s"] by simp

lemma butlast_spaces_split: "rev (dropWhile P (rev s)) @ rev (takeWhile P (rev s)) = s"
proof -
  have "rev (takeWhile P (rev s) @ dropWhile P (rev s)) = s" by simp
  then show ?thesis by (simp only: rev_append)
qed

lemma single_spaced_strip: "single_spaced s \<Longrightarrow> single_spaced (strip s)"
proof -
  assume "single_spaced s"
  then have d: "single_spaced (dropWhile isspace s)" by (rule single_spaced_dropWhile)
  let ?x = "dropWhile isspace s"
  from d butlast_spaces_split [of isspace ?x]
  have "single_spaced (rev (dropWhile isspace (rev ?x)) @ rev (takeWhile isspace (rev ?x)))"
    by simp
  then show ?thesis unfolding strip_def by (rule single_spaced_append_left)
qed

lemma strip_no_leading: "strip s = [] \<or> \<not> isspace (hd (strip s))"
proof (cases "strip s = []")
  case True
  then show ?thesis by simp
next
  case False
  let ?x = "dropWhile isspace s"
  let ?y = "dropWhile isspace (rev ?x)"
  from False have y: "?y \<noteq> []" by (simp add: strip_def)
  have x: "?x \<noteq> []"
  proof
    assume "?x = []"
    then have "?y = []" by (simp only: rev.simps dropWhile.simps)
    with y show False by (simp only: not_False_eq_True)
  qed
  have "hd (strip s) = last ?y" using y by (simp add: strip_def hd_rev)
  also have "\<dots> = last (rev ?x)"
    using y by (metis last_appendR takeWhile_dropWhile_id)
  also have "\<dots> = hd ?x" using x by (simp add: last_rev)
  finally show ?thesis using hd_dropWhile [OF x] by simp
qed

lemma strip_no_trailing: "dropWhile isspace (rev (strip s)) = rev (strip s)"
  by (simp add: strip_def)

lemma strip_idem: "strip (strip s) = strip s"
proof -
  have "dropWhile isspace (strip s) = strip s"
    using strip_no_leading [of s] by (simp add: dropWhile_eq_self_iff)
  then have "strip (strip s) = rev (dropWhile isspace (rev (strip s)))"
    by (simp add: strip_def)
  then show ?thesis by (simp add: strip_no_trailing)
qed

lemma location_cleanup_idem: "location_cleanup (location_cleanup s) = location_cleanup s"
proof -
  have "single_spaced (strip (re_sub_whitespace s))"
    by (rule single_spaced_strip) (rule single_spaced_re_sub_whitespace)
  then have "re_sub_whitespace (strip (re_sub_whitespace s)) = strip (re_sub_whitespace s)"
    by (rule re_sub_whitespace_fixed)
  then show ?thesis by (simp add: location_cleanup_def strip_idem)
qed

text \<open>
  Claim C8. The cleanup step of the decomposition (every run of whitespace collapsed to
  one blank, then trimmed) is idempotent: on its own output it changes nothing, for every
  string; so the processed location that the decomposition returns is a fixed point of
  the cleanup. On \<^verbatim>\<open>" Hybrid   work in  Boston , MA "\<close> the decomposition returns
  \<^verbatim>\<open>("Hybrid", "Boston , MA")\<close>.
\<close>

theorem location_cleanup_idempotent:
  "location_cleanup (location_cleanup s) = location_cleanup s
   \<and> location_cleanup (snd (split_work_format_and_location s))
       = snd (split_work_format_and_location s)
   \<and> split_work_format_and_location '' Hybrid   work in  Boston , MA ''
       = (''Hybrid'', ''Boston , MA'')"
proof -
  have ex: "split_work_format_and_location '' Hybrid   work in  Boston , MA ''
      = (''Hybrid'', ''Boston , MA'')"
    by code_simp
  have "snd (split_work_format_and_location s)
      = location_cleanup (snd (format_loop work_formats s))"
    by (simp add: split_work_format_and_location_def split: prod.splits)
  with ex show ?thesis by (simp add: location_cleanup_idem)
qed

section \<open>The substitution of the decomposition\<close>

lemma length_lower: "length (lower s) = length s"
  by (simp add: lower_def)

lemma lower_append: "lower (a @ b) = lower a @ lower b"
  by (simp add: lower_def)

lemma lower_take: "lower (take n s) = take n (lower s)"
  by (simp add: lower_def take_map)

lemma lower_eq_length: "lower a = lower b \<Longrightarrow> length a = length b"
  using length_lower by metis

lemma lazy_until_in_sublist: "lazy_until_in s = Some r \<Longrightarrow> sublist ''in'' (lower s)"
proof (induction s)
  case Nil
  then show ?case by simp
next
  case (Cons c cs)
  show ?case
  proof (cases "lower (take 2 (c # cs)) = ''in''")
    case True
    then have "prefix ''in'' (lower (c # cs))"
      by (metis lower_take take_is_prefix)
    then show ?thesis by (rule prefix_imp_sublist)
  next
    case False
    with Cons.prems have "lazy_until_in cs = Some r" by (simp split: if_splits)
    then have "sublist ''in'' (lower cs)" by (rule Cons.IH)
    then show ?thesis by (simp add: lower_def sublist_Cons_right)
  qed
qed

lemma lazy_until_in_next:
  assumes "lower i = ''in''" and "\<not> sublist ''in'' (lower (mid @ take 1 i))"
    and "CHR 0x0A \<notin> set mid"
  shows "lazy_until_in (mid @ i @ post) = Some post"
  using assms(2,3)
proof (induction mid)
  case Nil
  have "length i = 2" using length_lower [of i] by (simp add: assms(1))
  then obtain a b where i: "i = [a, b]"
    by (metis (no_types, opaque_lifting) One_nat_def Suc_1 length_0_conv length_Suc_conv)
  with assms(1) show ?case by simp
next
  case (Cons c m)
  have li: "length i = 2" using length_lower [of i] by (simp add: assms(1))
  have "lower (take 2 (c # m @ i @ post)) \<noteq> ''in''"
  proof
    assume a: "lower (take 2 (c # m @ i @ post)) = ''in''"
    have "take 2 (c # m @ i @ post) = take 2 (c # m @ take 1 i)"
      using li by (cases m; cases i) auto
    with a have "lower (take 2 (c # m @ take 1 i)) = ''in''" by (simp only:)
    then have "take 2 (lower (c # m @ take 1 i)) = ''in''" by (simp only: lower_take)
    then have "prefix ''in'' (lower (c # m @ take 1 i))" by (metis take_is_prefix)
    then have "sublist ''in'' (lower (c # m @ take 1 i))" by (rule prefix_imp_sublist)
    with Cons.prems(1) show False by simp
  qed
  moreover from Cons.prems(1) have "\<not> sublist ''in'' (lower (m @ take 1 i))"
    by (simp add: lower_def sublist_Cons_right)
  moreover from Cons.prems(2) have "c \<noteq> CHR 0x0A" "CHR 0x0A \<notin> set m" by auto
  ultimately show ?case using Cons.IH by simp
qed

lemma match_here_no_keyword:
  "\<not> prefix (lower kw) (lower s) \<Longrightarrow> match_here kw s = None"
  by (metis lower_take match_here_def take_is_prefix)

lemma match_here_no_in:
  "\<not> sublist ''in'' (lower (drop (length kw) s)) \<Longrightarrow> match_here kw s = None"
  using lazy_until_in_sublist [of "drop (length kw) s"]
  by (cases "match_here kw s") (auto simp: match_here_def split: if_splits)

lemma re_sub_format_unmatched:
  "(\<And>t. suffix t s \<Longrightarrow> match_here kw t = None) \<Longrightarrow> re_sub_format kw s = s"
proof (induction s)
  case Nil
  then show ?case by simp
next
  case (Cons c cs)
  have "match_here kw (c # cs) = None" by (rule Cons.prems) simp
  moreover have "re_sub_format kw cs = cs"
    by (rule Cons.IH) (simp add: Cons.prems suffix_ConsI)
  ultimately show ?case by simp
qed

lemma re_sub_format_no_keyword:
  assumes "\<not> sublist (lower kw) (lower s)"
  shows "re_sub_format kw s = s"
proof (rule re_sub_format_unmatched)
  fix t assume "suffix t s"
  then obtain p where "s = p @ t" by (auto simp: suffix_def)
  with assms have "\<not> prefix (lower kw) (lower t)"
    by (metis lower_append prefix_imp_sublist sublist_append_leftI sublist_order.order_trans)
  then show "match_here kw t = None" by (rule match_here_no_keyword)
qed

lemma re_sub_format_skip:
  assumes "length k = length kw"
    and "\<not> sublist (lower kw) (lower (pre @ butlast k))"
  shows "re_sub_format kw (pre @ k @ rest) = pre @ re_sub_format kw (k @ rest)"
  using assms(2)
proof (induction pre)
  case Nil
  then show ?case by simp
next
  case (Cons c p)
  have "\<not> prefix (lower kw) (lower (c # p @ k @ rest))"
  proof
    assume "prefix (lower kw) (lower (c # p @ k @ rest))"
    then have "take (length kw) (lower (c # p @ k @ rest)) = lower kw"
      by (metis append_eq_conv_conj length_lower prefix_def)
    moreover have "take (length kw) (lower (c # p @ k @ rest))
        = take (length kw) (lower (c # p @ butlast k))"
    proof -
      let ?X = "c # p @ butlast k" and ?Y = "drop (length k - 1) k @ rest"
      have "c # p @ k @ rest = ?X @ ?Y" by (simp add: butlast_conv_take)
      then have "lower (c # p @ k @ rest) = lower ?X @ lower ?Y"
        by (simp only: lower_append)
      moreover have "length kw \<le> length (lower ?X)"
        using assms(1) by (simp add: length_lower)
      ultimately show ?thesis by simp
    qed
    ultimately have "prefix (lower kw) (lower (c # p @ butlast k))"
      by (metis take_is_prefix)
    then have "sublist (lower kw) (lower ((c # p) @ butlast k))" by simp
    with Cons.prems show False by simp
  qed
  then have "match_here kw (c # p @ k @ rest) = None" by (rule match_here_no_keyword)
  moreover from Cons.prems have "\<not> sublist (lower kw) (lower (p @ butlast k))"
    by (simp add: lower_def sublist_Cons_right)
  ultimately show ?case using Cons.IH by simp
qed

lemma format_loop_find:
  "format_loop fs s =
     (case find (\<lambda>f. sublist (lower f) (lower s)) fs of
        None \<Rightarrow> (''Unknown'', s)
      | Some f \<Rightarrow> (f, strip (re_sub_format f s)))"
  by (induction fs) simp_all

lemma isspace_lower_char: "isspace (lower_char c) = isspace c"
  by (auto simp: isspace_def lower_char_def Let_def)

lemma lower_char_blank: "lower_char CHR '' '' = CHR '' ''"
  by (simp add: lower_char_def)

lemma lower_strip: "lower (strip s) = strip (lower s)"
proof -
  have "isspace \<circ> lower_char = isspace" by (rule ext) (simp add: isspace_lower_char)
  then show ?thesis by (simp add: strip_def lower_def rev_map dropWhile_map)
qed

lemma lower_re_sub_whitespace: "lower (re_sub_whitespace s) = re_sub_whitespace (lower s)"
proof (induction s rule: re_sub_whitespace.induct)
  case 1
  then show ?case by (simp add: lower_def)
next
  case (2 c cs)
  have "isspace \<circ> lower_char = isspace" by (rule ext) (simp add: isspace_lower_char)
  then have d: "map lower_char (dropWhile isspace cs) = dropWhile isspace (map lower_char cs)"
    by (simp add: dropWhile_map)
  show ?case
    using 2 d by (simp add: lower_def isspace_lower_char lower_char_blank)
qed

lemma lower_location_cleanup: "lower (location_cleanup s) = location_cleanup (lower s)"
  by (simp add: location_cleanup_def lower_strip lower_re_sub_whitespace)

lemma sublist_dropWhile_head:
  "w \<noteq> [] \<Longrightarrow> \<not> P (hd w) \<Longrightarrow> sublist w t \<Longrightarrow> sublist w (dropWhile P t)"
proof (induction t)
  case Nil
  then show ?case by simp
next
  case (Cons c cs)
  show ?case
  proof (cases "P c")
    case True
    with Cons.prems(1,2) have "\<not> prefix w (c # cs)"
      by (cases w) auto
    with Cons.prems(3) have "sublist w cs" by (simp add: sublist_Cons_right)
    with Cons.IH Cons.prems(1,2) True show ?thesis by simp
  next
    case False
    with Cons.prems(3) show ?thesis by simp
  qed
qed

lemma sublist_strip:
  assumes "w \<noteq> []" "\<not> isspace (hd w)" "\<not> isspace (last w)" "sublist w t"
  shows "sublist w (strip t)"
proof -
  have "sublist w (dropWhile isspace t)"
    using assms(1,2,4) by (rule sublist_dropWhile_head)
  then have "sublist (rev w) (rev (dropWhile isspace t))" by simp
  moreover have "rev w \<noteq> []" "\<not> isspace (hd (rev w))"
    using assms(1,3) by (simp_all add: hd_rev)
  ultimately have "sublist (rev w) (dropWhile isspace (rev (dropWhile isspace t)))"
    using sublist_dropWhile_head by blast
  then show ?thesis by (simp add: strip_def sublist_rev_left)
qed

lemma re_sub_whitespace_keeps_prefix:
  "single_spaced w \<Longrightarrow> w \<noteq> [] \<Longrightarrow> \<not> isspace (last w) \<Longrightarrow>
     \<exists>x. re_sub_whitespace (w @ b) = w @ x"
proof (induction w rule: single_spaced.induct)
  case 1
  then show ?case by simp
next
  case (2 c)
  then show ?case by simp
next
  case (3 c d cs)
  then obtain x where x: "re_sub_whitespace ((d # cs) @ b) = (d # cs) @ x" by auto
  show ?case
  proof (cases "isspace c")
    case True
    with "3.prems"(1) have "c = CHR '' ''" "\<not> isspace d" by simp_all
    with True x show ?thesis by simp
  next
    case False
    with x show ?thesis by simp
  qed
qed

lemma sublist_re_sub_whitespace:
  assumes "single_spaced w" "w \<noteq> []" "\<not> isspace (hd w)" "\<not> isspace (last w)"
  shows "sublist w t \<Longrightarrow> sublist w (re_sub_whitespace t)"
proof (induction t rule: re_sub_whitespace.induct)
  case 1
  then show ?case by simp
next
  case (2 c cs)
  show ?case
  proof (cases "prefix w (c # cs)")
    case True
    then obtain b where "c # cs = w @ b" by (auto simp: prefix_def)
    moreover obtain x where "re_sub_whitespace (w @ b) = w @ x"
      using re_sub_whitespace_keeps_prefix [OF assms(1,2,4)] by blast
    ultimately show ?thesis by simp
  next
    case False
    with "2.prems" have s: "sublist w cs" by (simp add: sublist_Cons_right)
    show ?thesis
    proof (cases "isspace c")
      case True
      from s have "sublist w (dropWhile isspace cs)"
        using assms(2,3) sublist_dropWhile_head by blast
      with "2.IH"(1) True have "sublist w (re_sub_whitespace (dropWhile isspace cs))" by simp
      with True show ?thesis by (simp add: sublist_Cons_right)
    next
      case False
      with "2.IH"(2) s have "sublist w (re_sub_whitespace cs)" by simp
      with False show ?thesis by (simp add: sublist_Cons_right)
    qed
  qed
qed

lemma sublist_location_cleanup:
  assumes "single_spaced w" "w \<noteq> []" "\<not> isspace (hd w)" "\<not> isspace (last w)"
    and "sublist w t"
  shows "sublist w (location_cleanup t)"
  unfolding location_cleanup_def
  using assms sublist_re_sub_whitespace sublist_strip by blast

lemma work_formats_clean:
  assumes "f \<in> set work_formats"
  shows "single_spaced (lower f) \<and> lower f \<noteq> [] \<and> \<not> isspace (hd (lower f))
    \<and> \<not> isspace (last (lower f))"
proof -
  have "single_spaced (lower ''Hybrid'') \<and> lower ''Hybrid'' \<noteq> []
      \<and> \<not> isspace (hd (lower ''Hybrid'')) \<and> \<not> isspace (last (lower ''Hybrid''))"
    by code_simp
  moreover have "single_spaced (lower ''Remote'') \<and> lower ''Remote'' \<noteq> []
      \<and> \<not> isspace (hd (lower ''Remote'')) \<and> \<not> isspace (last (lower ''Remote''))"
    by code_simp
  moreover have "single_spaced (lower ''In Person'') \<and> lower ''In Person'' \<noteq> []
      \<and> \<not> isspace (hd (lower ''In Person'')) \<and> \<not> isspace (last (lower ''In Person''))"
    by code_simp
  ultimately show ?thesis using assms by (auto simp: work_formats_def)
qed

lemma keyword_survives_cleanup:
  assumes "f \<in> set work_formats" and "sublist (lower f) (lower s)"
  shows "sublist (lower f) (lower (location_cleanup (strip s)))"
proof -
  note c = work_formats_clean [OF assms(1)]
  have "sublist (lower f) (strip (lower s))"
    using c assms(2) by (simp add: sublist_strip)
  then have "sublist (lower f) (location_cleanup (strip (lower s)))"
    using c by (simp add: sublist_location_cleanup)
  then show ?thesis by (simp add: lower_location_cleanup lower_strip)
qed

lemma find_format_Some:
  "find (\<lambda>f. sublist (lower f) (lower s)) work_formats = Some f \<Longrightarrow>
     f \<in> set work_formats \<and> sublist (lower f) (lower s)"
  by (auto simp: find_Some_iff)

lemma split_found:
  "find (\<lambda>f. sublist (lower f) (lower s)) work_formats = Some f \<Longrightarrow>
     split_work_format_and_location s = (f, location_cleanup (strip (re_sub_format f s)))"
  by (simp add: split_work_format_and_location_def format_loop_find)

lemma split_not_found:
  "find (\<lambda>f. sublist (lower f) (lower s)) work_formats = None \<Longrightarrow>
     split_work_format_and_location s = (''Unknown'', location_cleanup s)"
  by (simp add: split_work_format_and_location_def format_loop_find)

lemma suffix_drop_mono:
  assumes "suffix t s"
  shows "suffix (drop n t) (drop n s)"
proof -
  from assms obtain p where s: "s = p @ t" by (auto simp: suffix_def)
  have "drop n t = drop (n - (n - length p)) (drop (n - length p) t)" by simp
  then have "suffix (drop n t) (drop (n - length p) t)" by (metis suffix_drop)
  then have "suffix (drop n t) (drop n p @ drop (n - length p) t)" by (rule suffix_appendI)
  then show ?thesis by (simp add: s)
qed

lemma re_sub_format_no_in:
  assumes "lower k = lower f"
    and "\<not> sublist (lower f) (lower (pre @ butlast k))"
    and "\<not> sublist ''in'' (lower rest)"
  shows "re_sub_format f (pre @ k @ rest) = pre @ k @ rest"
proof -
  have len: "length k = length f" using assms(1) by (rule lower_eq_length)
  have "re_sub_format f (k @ rest) = k @ rest"
  proof (rule re_sub_format_unmatched)
    fix t assume "suffix t (k @ rest)"
    then have "suffix (drop (length f) t) (drop (length f) (k @ rest))"
      by (rule suffix_drop_mono)
    then have "suffix (drop (length f) t) rest" using len by simp
    then have "sublist (lower (drop (length f) t)) (lower rest)"
      by (auto simp: suffix_def lower_append)
    with assms(3) have "\<not> sublist ''in'' (lower (drop (length f) t))"
      by (meson sublist_order.order_trans)
    then show "match_here f t = None" by (rule match_here_no_in)
  qed
  with re_sub_format_skip [OF len assms(2), of rest] show ?thesis by simp
qed

lemma re_sub_format_first_match:
  assumes "lower k = lower f" and "lower i = ''in''"
    and "\<not> sublist (lower f) (lower (pre @ butlast k))"
    and "\<not> sublist ''in'' (lower (mid @ take 1 i))"
    and "CHR 0x0A \<notin> set mid"
  shows "re_sub_format f (pre @ k @ mid @ i @ post) = pre @ re_sub_format f post"
proof -
  have len: "length k = length f" using assms(1) by (rule lower_eq_length)
  have "k @ mid @ i @ post \<noteq> []"
    using assms(2) length_lower [of i] by auto
  then obtain c cs where cs: "k @ mid @ i @ post = c # cs" by (cases "k @ mid @ i @ post") auto
  have "match_here f (k @ mid @ i @ post) = Some post"
    using len assms(1) lazy_until_in_next [OF assms(2,4,5), of post]
    by (simp add: match_here_def lower_take lower_append)
  then have "re_sub_format f (k @ mid @ i @ post) = re_sub_format f post"
    by (simp add: cs)
  with re_sub_format_skip [OF len assms(3), of "mid @ i @ post"] show ?thesis by simp
qed

lemma fst_split_chain:
  "fst (split_work_format_and_location s) =
     (if sublist ''hybrid'' (lower s) then ''Hybrid''
      else if sublist ''remote'' (lower s) then ''Remote''
      else if sublist ''in person'' (lower s) then ''In Person''
      else ''Unknown'')"
proof -
  have l: "lower ''Hybrid'' = ''hybrid''" "lower ''Remote'' = ''remote''"
    "lower ''In Person'' = ''in person''"
    by code_simp+
  show ?thesis
    by (simp add: split_work_format_and_location_def work_formats_def l split: prod.splits)
qed

text \<open>
  Claim C4, amended. The keywords are tested in the fixed order Hybrid, Remote, In Person,
  without regard to case, and the first one found is the work format (\<^verbatim>\<open>Unknown\<close> when none
  is found, and then the location is only cleaned up). The substitution deletes every
  match of the keyword followed, on the same line, by the fewest characters up to and
  including \<^verbatim>\<open>in\<close>: when the first occurrence \<open>k\<close> of the keyword is followed by a text \<open>mid\<close>
  without a newline and without \<^verbatim>\<open>in\<close>, and then by \<^verbatim>\<open>in\<close>, exactly \<open>k\<close>, \<open>mid\<close> and that \<^verbatim>\<open>in\<close> are
  removed and the substitution goes on in the rest \<open>post\<close>; when the keyword does not occur
  in \<open>post\<close>, nothing else is removed. The decomposition of \<^verbatim>\<open>"Remote in Austin, TX"\<close> is
  \<^verbatim>\<open>("Remote", "Austin, TX")\<close> and that of \<^verbatim>\<open>"New York, NY"\<close> is \<^verbatim>\<open>("Unknown", "New York, NY")\<close>.
\<close>

theorem split_work_format_and_location_removal:
  "fst (split_work_format_and_location s) =
     (if sublist ''hybrid'' (lower s) then ''Hybrid''
      else if sublist ''remote'' (lower s) then ''Remote''
      else if sublist ''in person'' (lower s) then ''In Person''
      else ''Unknown'')
   \<and> (find (\<lambda>f. sublist (lower f) (lower s)) work_formats = None \<longrightarrow>
        snd (split_work_format_and_location s) = location_cleanup s)
   \<and> (find (\<lambda>f. sublist (lower f) (lower s)) work_formats = Some f
        \<and> s = pre @ k @ mid @ i @ post \<and> lower k = lower f \<and> lower i = ''in''
        \<and> \<not> sublist (lower f) (lower (pre @ butlast k))
        \<and> \<not> sublist ''in'' (lower (mid @ take 1 i))
        \<and> CHR 0x0A \<notin> set mid \<longrightarrow>
        snd (split_work_format_and_location s)
          = location_cleanup (strip (pre @ re_sub_format f post))
        \<and> (\<not> sublist (lower f) (lower post) \<longrightarrow>
             split_work_format_and_location s = (f, location_cleanup (strip (pre @ post)))))
   \<and> split_work_format_and_location ''Remote in Austin, TX'' = (''Remote'', ''Austin, TX'')
   \<and> split_work_format_and_location ''New York, NY'' = (''Unknown'', ''New York, NY'')"
proof (intro conjI impI)
  show "fst (split_work_format_and_location s) =
     (if sublist ''hybrid'' (lower s) then ''Hybrid''
      else if sublist ''remote'' (lower s) then ''Remote''
      else if sublist ''in person'' (lower s) then ''In Person''
      else ''Unknown'')"
    by (rule fst_split_chain)
next
  assume "find (\<lambda>f. sublist (lower f) (lower s)) work_formats = None"
  then show "snd (split_work_format_and_location s) = location_cleanup s"
    by (simp add: split_not_found)
next
  assume h: "find (\<lambda>f. sublist (lower f) (lower s)) work_formats = Some f
        \<and> s = pre @ k @ mid @ i @ post \<and> lower k = lower f \<and> lower i = ''in''
        \<and> \<not> sublist (lower f) (lower (pre @ butlast k))
        \<and> \<not> sublist ''in'' (lower (mid @ take 1 i))
        \<and> CHR 0x0A \<notin> set mid"
  then have r: "re_sub_format f s = pre @ re_sub_format f post"
    using re_sub_format_first_match [of k f i pre mid post] by blast
  from h have sp: "split_work_format_and_location s
      = (f, location_cleanup (strip (re_sub_format f s)))"
    using split_found by blast
  show "snd (split_work_format_and_location s)
      = location_cleanup (strip (pre @ re_sub_format f post))"
    by (simp add: sp r)
  assume "\<not> sublist (lower f) (lower post)"
  then have "re_sub_format f post = post" by (rule re_sub_format_no_keyword)
  then show "split_work_format_and_location s = (f, location_cleanup (strip (pre @ post)))"
    by (simp add: sp r)
next
  show "split_work_format_and_location ''Remote in Austin, TX'' = (''Remote'', ''Austin, TX'')"
    by code_simp
next
  show "split_work_format_and_location ''New York, NY'' = (''Unknown'', ''New York, NY'')"
    by code_simp
qed

text \<open>
  The hypotheses of C4 hold on \<^verbatim>\<open>"Hybrid work in Boston, MA"\<close> and on \<^verbatim>\<open>"Denver"\<close>.
\<close>

theorem split_work_format_and_location_removal_witness:
  "find (\<lambda>f. sublist (lower f) (lower ''Hybrid work in Boston, MA'')) work_formats
     = Some ''Hybrid''
   \<and> ''Hybrid work in Boston, MA'' = [] @ ''Hybrid'' @ '' work '' @ ''in'' @ '' Boston, MA''
   \<and> lower ''Hybrid'' = lower ''Hybrid'' \<and> lower ''in'' = ''in''
   \<and> \<not> sublist (lower ''Hybrid'') (lower ([] @ butlast ''Hybrid''))
   \<and> \<not> sublist ''in'' (lower ('' work '' @ take 1 ''in''))
   \<and> CHR 0x0A \<notin> set '' work ''
   \<and> \<not> sublist (lower ''Hybrid'') (lower '' Boston, MA'')
   \<and> split_work_format_and_location ''Hybrid work in Boston, MA''
       = (''Hybrid'', location_cleanup (strip ([] @ '' Boston, MA'')))
   \<and> find (\<lambda>f. sublist (lower f) (lower ''Denver'')) work_formats = None
   \<and> snd (split_work_format_and_location ''Denver'') = location_cleanup ''Denver''"
proof -
  have h1: "find (\<lambda>f. sublist (lower f) (lower ''Hybrid work in Boston, MA'')) work_formats
     = Some ''Hybrid''"
    by code_simp
  have h2: "''Hybrid work in Boston, MA'' = [] @ ''Hybrid'' @ '' work '' @ ''in'' @ '' Boston, MA''"
    by simp
  have h3: "lower ''in'' = ''in''" by code_simp
  have h4: "\<not> sublist (lower ''Hybrid'') (lower ([] @ butlast ''Hybrid''))" by code_simp
  have h5: "\<not> sublist ''in'' (lower ('' work '' @ take 1 ''in''))" by code_simp
  have h6: "CHR 0x0A \<notin> set '' work ''" by simp
  have h7: "\<not> sublist (lower ''Hybrid'') (lower '' Boston, MA'')" by code_simp
  have h8: "find (\<lambda>f. sublist (lower f) (lower ''Denver'')) work_formats = None"
    by code_simp
  from split_work_format_and_location_removal
    [of "''Hybrid work in Boston, MA''" "''Hybrid''" "[]" "''Hybrid''" "'' work ''" "''in''"
      "'' Boston, MA''"]
    h1 h2 h3 h4 h5 h6 h7
  have c1: "split_work_format_and_location ''Hybrid work in Boston, MA''
       = (''Hybrid'', location_cleanup (strip ([] @ '' Boston, MA'')))"
    by blast
  from split_work_format_and_location_removal [of "''Denver''"] h8
  have c2: "snd (split_work_format_and_location ''Denver'') = location_cleanup ''Denver''"
    by blast
  from h1 h2 h3 h4 h5 h6 h7 h8 c1 c2 show ?thesis by blast
qed

text \<open>
  Claim C4 as stated fails where a newline stands between the keyword and the next
  \<^verbatim>\<open>in\<close>: the pattern's dot does not match a newline, so nothing is removed, while the
  removal the claim describes would leave \<^verbatim>\<open>"Austin"\<close>.
\<close>

theorem split_work_format_and_location_newline:
  "split_work_format_and_location (''Remote'' @ [CHR 0x0A] @ ''in Austin'')
     = (''Remote'', ''Remote in Austin'')
   \<and> spec_decompose (''Remote'' @ [CHR 0x0A] @ ''in Austin'') = (''Remote'', ''Austin'')
   \<and> split_work_format_and_location (''Remote'' @ [CHR 0x0A] @ ''in Austin'')
     \<noteq> spec_decompose (''Remote'' @ [CHR 0x0A] @ ''in Austin'')"
proof -
  have a: "split_work_format_and_location (''Remote'' @ [CHR 0x0A] @ ''in Austin'')
     = (''Remote'', ''Remote in Austin'')"
    by code_simp
  have b: "spec_decompose (''Remote'' @ [CHR 0x0A] @ ''in Austin'') = (''Remote'', ''Austin'')"
    by code_simp
  show ?thesis unfolding a b by simp
qed

text \<open>
  Claim C9. When the first keyword found occurs in the location string and no \<^verbatim>\<open>in\<close> occurs
  behind its first occurrence, the work format is still that keyword, the substitution
  removes nothing, and the keyword survives into the processed location; so
  \<^verbatim>\<open>"Remote"\<close> decomposes into \<^verbatim>\<open>("Remote", "Remote")\<close>. The closing \<^verbatim>\<open>in\<close> of the pattern is a
  bare substring: in \<^verbatim>\<open>"Remote Austin, TX"\<close> it is found inside \<^verbatim>\<open>Austin\<close>.
\<close>

theorem split_work_format_and_location_no_in:
  "(find (\<lambda>f. sublist (lower f) (lower s)) work_formats = Some f
      \<and> s = pre @ k @ rest \<and> lower k = lower f
      \<and> \<not> sublist (lower f) (lower (pre @ butlast k))
      \<and> \<not> sublist ''in'' (lower rest) \<longrightarrow>
      re_sub_format f s = s
      \<and> split_work_format_and_location s = (f, location_cleanup (strip s))
      \<and> sublist (lower f) (lower (snd (split_work_format_and_location s))))
   \<and> split_work_format_and_location ''Remote'' = (''Remote'', ''Remote'')
   \<and> split_work_format_and_location ''Remote Austin, TX'' = (''Remote'', '', TX'')"
proof (intro conjI impI)
  assume h: "find (\<lambda>f. sublist (lower f) (lower s)) work_formats = Some f
      \<and> s = pre @ k @ rest \<and> lower k = lower f
      \<and> \<not> sublist (lower f) (lower (pre @ butlast k))
      \<and> \<not> sublist ''in'' (lower rest)"
  then show r: "re_sub_format f s = s"
    using re_sub_format_no_in [of k f pre rest] by blast
  from h have "split_work_format_and_location s
      = (f, location_cleanup (strip (re_sub_format f s)))"
    using split_found by blast
  with r show sp: "split_work_format_and_location s = (f, location_cleanup (strip s))"
    by simp
  from h have "f \<in> set work_formats" "sublist (lower f) (lower s)"
    using find_format_Some by blast+
  then have "sublist (lower f) (lower (location_cleanup (strip s)))"
    by (rule keyword_survives_cleanup)
  then show "sublist (lower f) (lower (snd (split_work_format_and_location s)))"
    by (simp add: sp)
next
  show "split_work_format_and_location ''Remote'' = (''Remote'', ''Remote'')"
    by code_simp
next
  show "split_work_format_and_location ''Remote Austin, TX'' = (''Remote'', '', TX'')"
    by code_simp
qed

text \<open>The hypotheses of C9 hold on \<^verbatim>\<open>"Fully REMOTE (US)"\<close>.\<close>

theorem split_work_format_and_location_no_in_witness:
  "find (\<lambda>f. sublist (lower f) (lower ''Fully REMOTE (US)'')) work_formats = Some ''Remote''
   \<and> ''Fully REMOTE (US)'' = ''Fully '' @ ''REMOTE'' @ '' (US)''
   \<and> lower ''REMOTE'' = lower ''Remote''
   \<and> \<not> sublist (lower ''Remote'') (lower (''Fully '' @ butlast ''REMOTE''))
   \<and> \<not> sublist ''in'' (lower '' (US)'')
   \<and> re_sub_format ''Remote'' ''Fully REMOTE (US)'' = ''Fully REMOTE (US)''
   \<and> split_work_format_and_location ''Fully REMOTE (US)''
        = (''Remote'', location_cleanup (strip ''Fully REMOTE (US)''))
   \<and> sublist (lower ''Remote'')
        (lower (snd (split_work_format_and_location ''Fully REMOTE (US)'')))"
proof -
  have h1: "find (\<lambda>f. sublist (lower f) (lower ''Fully REMOTE (US)'')) work_formats
      = Some ''Remote''"
    by code_simp
  have h2: "''Fully REMOTE (US)'' = ''Fully '' @ ''REMOTE'' @ '' (US)''" by simp
  have h3: "lower ''REMOTE'' = lower ''Remote''" by code_simp
  have h4: "\<not> sublist (lower ''Remote'') (lower (''Fully '' @ butlast ''REMOTE''))"
    by code_simp
  have h5: "\<not> sublist ''in'' (lower '' (US)'')" by code_simp
  from split_work_format_and_location_no_in
    [of "''Fully REMOTE (US)''" "''Remote''" "''Fully ''" "''REMOTE''" "'' (US)''"]
    h1 h2 h3 h4 h5
  have c: "re_sub_format ''Remote'' ''Fully REMOTE (US)'' = ''Fully REMOTE (US)''
   \<and> split_work_format_and_location ''Fully REMOTE (US)''
        = (''Remote'', location_cleanup (strip ''Fully REMOTE (US)''))
   \<and> sublist (lower ''Remote'')
        (lower (snd (split_work_format_and_location ''Fully REMOTE (US)'')))"
    by blast
  from h1 h2 h3 h4 h5 c show ?thesis by blast
qed

section \<open>The field extractor\<close>

lemma text_or_na_None: "text_or_na None = ''N/A''"
  by (simp add: text_or_na_def)

lemma extract_job_data_linked:
  assumes "bs_find ''a'' (\<lambda>n. True) box = Some a" and "attr a ''href'' = Some h"
  shows "extract_job_data box country =
     Inr \<lparr>Link = country @ h,
          Job_Title = text_or_na (bs_find ''a'' (has_class ''jcs-JobTitle'') box),
          Company = text_or_na (bs_find ''span'' (has_attr ''data-testid'' ''company-name'') box),
          Date_Posted = extract_date_posted box,
          Location = text_or_na (bs_find ''div'' (has_attr ''data-testid'' ''text-location'') box),
          Salary = text_or_na (bs_find ''div'' (has_class ''metadata salary-snippet-container'') box),
          Job_Type = extract_job_type box\<rparr>"
  using assms by (simp add: extract_job_data_def extract_link_def)

text \<open>
  Claim C3, amended. For every listing node that the extractor returns a record for (a
  node whose first anchor has an \<^verbatim>\<open>href\<close>), a field whose element is absent holds its
  sentinel: \<^verbatim>\<open>"N/A"\<close> for the title, the company, the date (when none of its three
  candidates is there), the location and the salary, \<^verbatim>\<open>"Unknown"\<close> for the job type. Each
  field depends on its own lookup alone: two such nodes \<open>box\<close> and \<open>box'\<close> that agree on
  the lookup of a field agree on that field, whatever else differs between them. The
  lookups themselves are not disjoint (the link is read from the first anchor, the job
  type from the first element of class \<^verbatim>\<open>metadata\<close>), so nothing is said about a field
  whose lookup changes with the absence of another field's element.
\<close>

theorem extract_job_data_sentinels:
  assumes "bs_find ''a'' (\<lambda>n. True) box = Some a" and "attr a ''href'' = Some h"
    and "bs_find ''a'' (\<lambda>n. True) box' = Some a'" and "attr a' ''href'' = Some h'"
  shows "\<exists>r r'. extract_job_data box country = Inr r
    \<and> extract_job_data box' country = Inr r'
    \<and> Link r = country @ h
    \<and> (bs_find ''a'' (has_class ''jcs-JobTitle'') box = None \<longrightarrow> Job_Title r = ''N/A'')
    \<and> (bs_find ''span'' (has_attr ''data-testid'' ''company-name'') box = None
          \<longrightarrow> Company r = ''N/A'')
    \<and> (bs_find ''span'' (has_class ''date'') box = None
          \<and> bs_find ''span'' (has_attr ''data-testid'' ''myJobsStateDate'') box = None
          \<and> bs_find ''span'' (has_attr ''data-testid'' ''job-age'') box = None
          \<longrightarrow> Date_Posted r = ''N/A'')
    \<and> (bs_find ''div'' (has_attr ''data-testid'' ''text-location'') box = None
          \<longrightarrow> Location r = ''N/A'')
    \<and> (bs_find ''div'' (has_class ''metadata salary-snippet-container'') box = None
          \<longrightarrow> Salary r = ''N/A'')
    \<and> (bs_find ''div'' (has_class ''metadata'') box = None \<longrightarrow> Job_Type r = ''Unknown'')
    \<and> (a = a' \<longrightarrow> Link r = Link r')
    \<and> (bs_find ''a'' (has_class ''jcs-JobTitle'') box
          = bs_find ''a'' (has_class ''jcs-JobTitle'') box'
          \<longrightarrow> Job_Title r = Job_Title r')
    \<and> (bs_find ''span'' (has_attr ''data-testid'' ''company-name'') box
          = bs_find ''span'' (has_attr ''data-testid'' ''company-name'') box'
          \<longrightarrow> Company r = Company r')
    \<and> (bs_find ''span'' (has_class ''date'') box = bs_find ''span'' (has_class ''date'') box'
          \<and> bs_find ''span'' (has_attr ''data-testid'' ''myJobsStateDate'') box
            = bs_find ''span'' (has_attr ''data-testid'' ''myJobsStateDate'') box'
          \<and> bs_find ''span'' (has_attr ''data-testid'' ''job-age'') box
            = bs_find ''span'' (has_attr ''data-testid'' ''job-age'') box'
          \<longrightarrow> Date_Posted r = Date_Posted r')
    \<and> (bs_find ''div'' (has_attr ''data-testid'' ''text-location'') box
          = bs_find ''div'' (has_attr ''data-testid'' ''text-location'') box'
          \<longrightarrow> Location r = Location r')
    \<and> (bs_find ''div'' (has_class ''metadata salary-snippet-container'') box
          = bs_find ''div'' (has_class ''metadata salary-snippet-container'') box'
          \<longrightarrow> Salary r = Salary r')
    \<and> (bs_find ''div'' (has_class ''metadata'') box = bs_find ''div'' (has_class ''metadata'') box'
          \<longrightarrow> Job_Type r = Job_Type r')"
proof -
  have same: "a = a' \<longrightarrow> h = h'"
    using assms(2,4) by auto
  show ?thesis
    using same
    by (simp add: extract_job_data_linked [OF assms(1,2)] extract_job_data_linked [OF assms(3,4)]
        text_or_na_None extract_date_posted_def extract_job_type_def)
qed

text \<open>
  The hypotheses of C3 hold on a listing with one anchor and nothing else, beside the
  listing without a salary container: every field of the first but the link is its
  sentinel, and the company, absent in both, is the same in both records.
\<close>

theorem extract_job_data_sentinels_witness:
  "bs_find ''a'' (\<lambda>n. True) (listing ''/rc/clk?jk=7'')
     = Some (Element ''a'' [(''href'', ''/rc/clk?jk=7'')] [])
   \<and> attr (Element ''a'' [(''href'', ''/rc/clk?jk=7'')] []) ''href'' = Some ''/rc/clk?jk=7''
   \<and> bs_find ''a'' (\<lambda>n. True) unpriced_listing
     = Some (Element ''a'' [(''class'', ''jcs-JobTitle''), (''href'', ''/rc/clk?jk=7'')]
         [Text ''Cook''])
   \<and> attr (Element ''a'' [(''class'', ''jcs-JobTitle''), (''href'', ''/rc/clk?jk=7'')]
         [Text ''Cook'']) ''href'' = Some ''/rc/clk?jk=7''
   \<and> bs_find ''span'' (has_attr ''data-testid'' ''company-name'') (listing ''/rc/clk?jk=7'') = None
   \<and> bs_find ''span'' (has_attr ''data-testid'' ''company-name'') (listing ''/rc/clk?jk=7'')
     = bs_find ''span'' (has_attr ''data-testid'' ''company-name'') unpriced_listing
   \<and> extract_job_data (listing ''/rc/clk?jk=7'') ''https://www.indeed.com''
     = Inr \<lparr>Link = ''https://www.indeed.com/rc/clk?jk=7'', Job_Title = ''N/A'',
            Company = ''N/A'', Date_Posted = ''N/A'', Location = ''N/A'', Salary = ''N/A'',
            Job_Type = ''Unknown''\<rparr>
   \<and> map_sum id Company (extract_job_data unpriced_listing ''https://www.indeed.com'')
     = Inr ''N/A''"
proof -
  let ?box = "listing ''/rc/clk?jk=7''"
  let ?a' = "Element ''a'' [(''class'', ''jcs-JobTitle''), (''href'', ''/rc/clk?jk=7'')]
      [Text ''Cook'']"
  have h1: "bs_find ''a'' (\<lambda>n. True) ?box = Some (Element ''a'' [(''href'', ''/rc/clk?jk=7'')] [])"
    by code_simp
  have h2: "attr (Element ''a'' [(''href'', ''/rc/clk?jk=7'')] []) ''href'' = Some ''/rc/clk?jk=7''"
    by simp
  have h3: "bs_find ''a'' (\<lambda>n. True) unpriced_listing = Some ?a'"
    by code_simp
  have h4: "attr ?a' ''href'' = Some ''/rc/clk?jk=7''"
    by simp
  have e: "bs_find ''span'' (has_attr ''data-testid'' ''company-name'') ?box
     = bs_find ''span'' (has_attr ''data-testid'' ''company-name'') unpriced_listing"
    by code_simp
  have n: "bs_find ''a'' (has_class ''jcs-JobTitle'') ?box = None"
    "bs_find ''span'' (has_attr ''data-testid'' ''company-name'') ?box = None"
    "bs_find ''span'' (has_class ''date'') ?box = None"
    "bs_find ''span'' (has_attr ''data-testid'' ''myJobsStateDate'') ?box = None"
    "bs_find ''span'' (has_attr ''data-testid'' ''job-age'') ?box = None"
    "bs_find ''div'' (has_attr ''data-testid'' ''text-location'') ?box = None"
    "bs_find ''div'' (has_class ''metadata salary-snippet-container'') ?box = None"
    "bs_find ''div'' (has_class ''metadata'') ?box = None"
    by code_simp+
  from extract_job_data_sentinels [OF h1 h2 h3 h4, of "''https://www.indeed.com''"]
  obtain r r' where r: "extract_job_data ?box ''https://www.indeed.com'' = Inr r"
    and r': "extract_job_data unpriced_listing ''https://www.indeed.com'' = Inr r'"
    and f: "Link r = ''https://www.indeed.com'' @ ''/rc/clk?jk=7''" "Job_Title r = ''N/A''"
      "Company r = ''N/A''" "Date_Posted r = ''N/A''" "Location r = ''N/A''" "Salary r = ''N/A''"
      "Job_Type r = ''Unknown''"
    and g: "Company r = Company r'"
    using n e by blast
  from f have "r = \<lparr>Link = ''https://www.indeed.com/rc/clk?jk=7'', Job_Title = ''N/A'',
            Company = ''N/A'', Date_Posted = ''N/A'', Location = ''N/A'', Salary = ''N/A'',
            Job_Type = ''Unknown''\<rparr>"
    by (cases r) simp
  with r have c1: "extract_job_data ?box ''https://www.indeed.com''
     = Inr \<lparr>Link = ''https://www.indeed.com/rc/clk?jk=7'', Job_Title = ''N/A'',
            Company = ''N/A'', Date_Posted = ''N/A'', Location = ''N/A'', Salary = ''N/A'',
            Job_Type = ''Unknown''\<rparr>"
    by simp
  from r' g f(3)
  have c2: "map_sum id Company (extract_job_data unpriced_listing ''https://www.indeed.com'')
     = Inr ''N/A''"
    by simp
  from h1 h2 h3 h4 n(2) e c1 c2 show ?thesis by (intro conjI)
qed

text \<open>
  Claim C3 as stated fails twice. Without its salary container a listing has the salary
  \<^verbatim>\<open>"N/A"\<close>, but its job type is not unaffected: with the container the first element of
  class \<^verbatim>\<open>metadata\<close> is the container itself and the job type is \<^verbatim>\<open>"Unknown"\<close>, without it
  the job type is \<^verbatim>\<open>"Part-time"\<close>. And a node without a company element that has no anchor
  either gives no record at all, so no company \<^verbatim>\<open>"N/A"\<close>: the extractor raises.
\<close>

theorem extract_job_data_fields_affected:
  "extract_job_data priced_listing ''https://www.indeed.com''
     = Inr \<lparr>Link = ''https://www.indeed.com/rc/clk?jk=7'', Job_Title = ''Cook'',
            Company = ''N/A'', Date_Posted = ''N/A'', Location = ''N/A'',
            Salary = ''$50 an hour'', Job_Type = ''Unknown''\<rparr>
   \<and> bs_find ''div'' (has_class ''metadata salary-snippet-container'') unpriced_listing = None
   \<and> extract_job_data unpriced_listing ''https://www.indeed.com''
     = Inr \<lparr>Link = ''https://www.indeed.com/rc/clk?jk=7'', Job_Title = ''Cook'',
            Company = ''N/A'', Date_Posted = ''N/A'', Location = ''N/A'',
            Salary = ''N/A'', Job_Type = ''Part-time''\<rparr>
   \<and> bs_find ''span'' (has_attr ''data-testid'' ''company-name'')
       (Element ''div'' [(''class'', ''job_seen_beacon'')]
          [Element ''span'' [(''class'', ''date'')] [Text ''Today'']]) = None
   \<and> extract_job_data
       (Element ''div'' [(''class'', ''job_seen_beacon'')]
          [Element ''span'' [(''class'', ''date'')] [Text ''Today'']])
       ''https://www.indeed.com''
     = Inl AttributeError"
  by code_simp

text \<open>
  Claim C2 says that the extractor never raises, also on a node without an anchor. On a
  listing with a company name and no anchor, \<^verbatim>\<open>box.find('a')\<close> is \<^verbatim>\<open>None\<close> and the extractor
  raises \<^verbatim>\<open>AttributeError\<close>: the link is the one field without a fallback.
\<close>

theorem extract_job_data_no_anchor:
  "extract_job_data
     (Element ''div'' [(''class'', ''job_seen_beacon'')]
        [Element ''span'' [(''data-testid'', ''company-name'')] [Text ''Acme'']])
     ''https://www.indeed.com''
   = Inl AttributeError"
  by code_simp

section \<open>The search address and the expected count\<close>

text \<open>
  Claim C7 says that \<^verbatim>\<open>search_jobs\<close> falls back to \<^verbatim>\<open>"Unknown"\<close> whenever the text of the count
  element does not parse. On a count element with an empty text, \<^verbatim>\<open>split()[0]\<close> raises
  \<^verbatim>\<open>IndexError\<close>, which is not caught; on a text whose first token is no number, the token
  is returned as the total.
\<close>

theorem search_jobs_blank_count:
  "search_jobs (\<lambda>url. CountText '''') ''https://www.indeed.com'' ''IT'' ''all'' 30
     = Inl IndexError
   \<and> search_jobs (\<lambda>url. CountText ''Page 1 of 3'') ''https://www.indeed.com'' ''IT'' ''all'' 30
     = Inr (''https://www.indeed.com/jobs?q=IT&l=all&fromage=30'', ''Page'')"
  by code_simp

lemma str_split_Nil: "dropWhile isspace s = [] \<Longrightarrow> str_split s = []"
  by (subst str_split.simps) (simp add: Let_def)

lemma str_split_Cons:
  "dropWhile isspace s \<noteq> [] \<Longrightarrow>
     str_split s = takeWhile (\<lambda>c. \<not> isspace c) (dropWhile isspace s)
       # str_split (dropWhile (\<lambda>c. \<not> isspace c) (dropWhile isspace s))"
  by (subst str_split.simps) (simp add: Let_def)

lemma filter_takeWhile_same: "filter P (takeWhile P xs) = takeWhile P xs"
  by (induction xs) auto

lemma str_split_words:
  "w \<in> set (str_split s) \<Longrightarrow> w \<noteq> [] \<and> (\<forall>c\<in>set w. \<not> isspace c)"
proof (induction s rule: str_split.induct)
  case (1 s)
  let ?w = "dropWhile isspace s"
  show ?case
  proof (cases "?w = []")
    case True
    then have "str_split s = []" by (rule str_split_Nil)
    with "1.prems" show ?thesis by (simp only: list.set empty_iff)
  next
    case False
    then have hd: "\<not> isspace (hd ?w)" by (rule hd_dropWhile)
    have "str_split s = takeWhile (\<lambda>c. \<not> isspace c) ?w
        # str_split (dropWhile (\<lambda>c. \<not> isspace c) ?w)"
      using False by (rule str_split_Cons)
    with "1.prems"
    have "w = takeWhile (\<lambda>c. \<not> isspace c) ?w
        \<or> w \<in> set (str_split (dropWhile (\<lambda>c. \<not> isspace c) ?w))"
      by (simp only: list.set insert_iff)
    then show ?thesis
    proof
      assume w: "w = takeWhile (\<lambda>c. \<not> isspace c) ?w"
      have "takeWhile (\<lambda>c. \<not> isspace c) ?w \<noteq> []"
        using False hd by (simp only: takeWhile_eq_Nil_iff simp_thms)
      moreover have "\<forall>c\<in>set (takeWhile (\<lambda>c. \<not> isspace c) ?w). \<not> isspace c"
        using set_takeWhileD by fast
      ultimately show ?thesis unfolding w by (rule conjI)
    next
      assume "w \<in> set (str_split (dropWhile (\<lambda>c. \<not> isspace c) ?w))"
      then show ?thesis by (rule "1.IH" [OF refl False])
    qed
  qed
qed

lemma concat_str_split: "concat (str_split s) = filter (\<lambda>c. \<not> isspace c) s"
proof (induction s rule: str_split.induct)
  case (1 s)
  let ?w = "dropWhile isspace s"
  let ?n = "\<lambda>c. \<not> isspace c"
  have s: "filter ?n s = filter ?n ?w"
  proof -
    have "filter ?n s = filter ?n (takeWhile isspace s @ ?w)" by simp
    also have "\<dots> = filter ?n (takeWhile isspace s) @ filter ?n ?w" by (rule filter_append)
    also have "filter ?n (takeWhile isspace s) = []"
      by (auto simp: filter_empty_conv dest: set_takeWhileD)
    finally show ?thesis by simp
  qed
  show ?case
  proof (cases "?w = []")
    case True
    then have "str_split s = []" by (rule str_split_Nil)
    with True s show ?thesis by simp
  next
    case False
    then have "str_split s = takeWhile ?n ?w # str_split (dropWhile ?n ?w)"
      by (rule str_split_Cons)
    then have "concat (str_split s) = takeWhile ?n ?w @ filter ?n (dropWhile ?n ?w)"
      using "1.IH" [OF refl False] by simp
    also have "\<dots> = filter ?n (takeWhile ?n ?w) @ filter ?n (dropWhile ?n ?w)"
      by (simp add: filter_takeWhile_same)
    also have "\<dots> = filter ?n (takeWhile ?n ?w @ dropWhile ?n ?w)"
      by (simp only: filter_append)
    also have "\<dots> = filter ?n ?w" by (simp only: takeWhile_dropWhile_id)
    finally show ?thesis using s by simp
  qed
qed

lemma search_jobs_cases:
  "search_jobs drv country q l days = Inl IndexError
   \<or> (\<exists>n. search_jobs drv country q l days = Inr (full_url country q l days, n))"
  by (simp add: search_jobs_def Let_def split: search_page.splits list.splits)

text \<open>
  Claim C6. For every base address, query, location and number of days, the address that
  \<^verbatim>\<open>search_jobs\<close> builds is the base, \<^verbatim>\<open>/jobs?q=\<close>, the terms of the query joined by \<^verbatim>\<open>+\<close>, and
  the location and \<^verbatim>\<open>fromage\<close> parameters. The terms are the runs of the query without
  whitespace: none is empty, none holds a whitespace character, and together they are
  the query without its whitespace. Whenever \<^verbatim>\<open>search_jobs\<close> returns, it returns this
  address (it raises only the \<^verbatim>\<open>IndexError\<close> of a count element without a token). For
  \<^verbatim>\<open>"https://example.com"\<close>, \<^verbatim>\<open>"senior cook"\<close>, \<^verbatim>\<open>"Denver"\<close> and 5 the address is
  \<^verbatim>\<open>https://example.com/jobs?q=senior+cook&l=Denver&fromage=5\<close>.
\<close>

theorem search_jobs_full_url:
  "full_url country q l days
     = country @ ''/jobs?q='' @ str_join ''+'' (str_split q) @ ''&l='' @ l
         @ ''&fromage='' @ str_int days
   \<and> concat (str_split q) = filter (\<lambda>c. \<not> isspace c) q
   \<and> (\<forall>w\<in>set (str_split q). w \<noteq> [] \<and> (\<forall>c\<in>set w. \<not> isspace c))
   \<and> (search_jobs drv country q l days = Inl IndexError
       \<or> (\<exists>n. search_jobs drv country q l days = Inr (full_url country q l days, n)))
   \<and> full_url ''https://example.com'' ''senior cook'' ''Denver'' 5
       = ''https://example.com/jobs?q=senior+cook&l=Denver&fromage=5''
   \<and> search_jobs (\<lambda>url. CountText ''1,234+ jobs'') ''https://example.com'' ''senior cook''
         ''Denver'' 5
       = Inr (''https://example.com/jobs?q=senior+cook&l=Denver&fromage=5'', ''1234'')"
proof (intro conjI)
  show "full_url country q l days
     = country @ ''/jobs?q='' @ str_join ''+'' (str_split q) @ ''&l='' @ l
         @ ''&fromage='' @ str_int days"
    by (simp only: full_url_def)
  show "concat (str_split q) = filter (\<lambda>c. \<not> isspace c) q"
    by (rule concat_str_split)
  show "\<forall>w\<in>set (str_split q). w \<noteq> [] \<and> (\<forall>c\<in>set w. \<not> isspace c)"
    using str_split_words by blast
  show "search_jobs drv country q l days = Inl IndexError
       \<or> (\<exists>n. search_jobs drv country q l days = Inr (full_url country q l days, n))"
    by (rule search_jobs_cases)
  show "full_url ''https://example.com'' ''senior cook'' ''Denver'' 5
       = ''https://example.com/jobs?q=senior+cook&l=Denver&fromage=5''"
    by code_simp
  show "search_jobs (\<lambda>url. CountText ''1,234+ jobs'') ''https://example.com'' ''senior cook''
         ''Denver'' 5
       = Inr (''https://example.com/jobs?q=senior+cook&l=Denver&fromage=5'', ''1234'')"
    by code_simp
qed

text \<open>
  C6 at the query \<^verbatim>\<open>" senior   cook "\<close>, whose terms are \<^verbatim>\<open>senior\<close> and \<^verbatim>\<open>cook\<close>.
\<close>

theorem search_jobs_full_url_witness:
  "str_split '' senior   cook '' = [''senior'', ''cook'']
   \<and> ''senior'' \<noteq> [] \<and> \<not> isspace CHR ''s''
   \<and> concat (str_split '' senior   cook '') = ''seniorcook''
   \<and> full_url ''https://example.com'' '' senior   cook '' ''Denver'' 5
       = ''https://example.com/jobs?q=senior+cook&l=Denver&fromage=5''"
proof -
  have s: "str_split '' senior   cook '' = [''senior'', ''cook'']" by code_simp
  have f: "filter (\<lambda>c. \<not> isspace c) '' senior   cook '' = ''seniorcook''" by code_simp
  have u: "''https://example.com'' @ ''/jobs?q='' @ str_join ''+'' [''senior'', ''cook'']
      @ ''&l='' @ ''Denver'' @ ''&fromage='' @ str_int 5
      = ''https://example.com/jobs?q=senior+cook&l=Denver&fromage=5''"
    by code_simp
  note t = search_jobs_full_url
    [of "''https://example.com''" "'' senior   cook ''" "''Denver''" 5 "\<lambda>url. LoadTimeout"]
  note t1 = t [THEN conjunct1]
  note t2 = t [THEN conjunct2, THEN conjunct1]
  note t3 = t [THEN conjunct2, THEN conjunct2, THEN conjunct1]
  from t3 have "''senior'' \<noteq> [] \<and> (\<forall>c\<in>set ''senior''. \<not> isspace c)"
    unfolding s by (simp only: list.set insert_iff ball_simps simp_thms)
  then have a: "''senior'' \<noteq> []" "\<not> isspace CHR ''s''" by simp_all
  from t2 have b: "concat (str_split '' senior   cook '') = ''seniorcook''"
    by (simp only: f)
  from t1 have c: "full_url ''https://example.com'' '' senior   cook '' ''Denver'' 5
       = ''https://example.com/jobs?q=senior+cook&l=Denver&fromage=5''"
    by (simp only: s u)
  from s a b c show ?thesis by (intro conjI)
qed

section \<open>The harvest loop\<close>

lemma upt_max_retries: "[0..<max_retries] = [0, 1, 2]"
  by (simp add: max_retries_def upt_rec)

lemma scrape_boxes_count:
  "scrape_boxes country boxes df job_count = Inr (df', job_count') \<Longrightarrow>
     job_count' = job_count + length boxes \<and> length df' = length df + length boxes"
proof (induction boxes arbitrary: df job_count)
  case Nil
  then show ?case by simp
next
  case (Cons box boxes)
  from Cons.prems obtain job_data where
    "scrape_boxes country boxes (df @ [job_data]) (job_count + 1) = Inr (df', job_count')"
    by (auto split: sum.splits)
  from Cons.IH [OF this] show ?case by simp
qed

lemma scrape_loop_bound:
  assumes run: "scrape_loop br country total_jobs d df job_count = Some y"
  shows "(\<forall>d. length (page_boxes br d) \<le> m) \<longrightarrow>
     (\<forall>j. stop_check j total_jobs = Inr False \<longrightarrow> j < L) \<longrightarrow>
     job_count = length df \<longrightarrow> job_count < L \<longrightarrow>
     (\<forall>res d'. y = (Inr res, d') \<longrightarrow> length res < L + m)"
proof (rule scrape_loop.raw_induct
    [where P = "\<lambda>br country total_jobs d df job_count y.
       (\<forall>d. length (page_boxes br d) \<le> m) \<longrightarrow>
       (\<forall>j. stop_check j total_jobs = Inr False \<longrightarrow> j < L) \<longrightarrow>
       job_count = length df \<longrightarrow> job_count < L \<longrightarrow>
       (\<forall>res d'. y = (Inr res, d') \<longrightarrow> length res < L + m)",
     OF _ run])
  fix f :: "'a browser \<Rightarrow> string \<Rightarrow> string \<Rightarrow> 'a \<Rightarrow> job list \<Rightarrow> nat
      \<Rightarrow> ((py_error + job list) \<times> 'a) option"
  fix br :: "'a browser" and country total_jobs :: string and d :: 'a and df :: "job list"
    and job_count :: nat and y :: "(py_error + job list) \<times> 'a"
  assume IH: "\<And>br country total_jobs d df job_count y.
      f br country total_jobs d df job_count = Some y \<Longrightarrow>
      (\<forall>d. length (page_boxes br d) \<le> m) \<longrightarrow>
      (\<forall>j. stop_check j total_jobs = Inr False \<longrightarrow> j < L) \<longrightarrow>
      job_count = length df \<longrightarrow> job_count < L \<longrightarrow>
      (\<forall>res d'. y = (Inr res, d') \<longrightarrow> length res < L + m)"
  assume body: "(case wait_loop br [0..<max_retries] d of
        (loaded, d1) \<Rightarrow>
          if \<not> loaded then Some (Inr df, d1)
          else
            (case scrape_boxes country (page_boxes br d1) df job_count of
               Inl e \<Rightarrow> Some (Inl e, d1)
             | Inr (df', job_count') \<Rightarrow>
                 (case stop_check job_count' total_jobs of
                    Inl e \<Rightarrow> Some (Inl e, d1)
                  | Inr stop \<Rightarrow>
                      if stop then Some (Inr df', d1)
                      else
                        (case navigate_to_next_page br d1 of
                           (moved, d2) \<Rightarrow>
                             if \<not> moved then Some (Inr df', d2)
                             else f br country total_jobs d2 df' job_count')))) = Some y"
  show "(\<forall>d. length (page_boxes br d) \<le> m) \<longrightarrow>
      (\<forall>j. stop_check j total_jobs = Inr False \<longrightarrow> j < L) \<longrightarrow>
      job_count = length df \<longrightarrow> job_count < L \<longrightarrow>
      (\<forall>res d'. y = (Inr res, d') \<longrightarrow> length res < L + m)"
  proof (intro impI allI)
    fix res d'
    assume m: "\<forall>d. length (page_boxes br d) \<le> m"
      and L: "\<forall>j. stop_check j total_jobs = Inr False \<longrightarrow> j < L"
    assume jc: "job_count = length df" and lt: "job_count < L" and y: "y = (Inr res, d')"
    obtain loaded d1 where w: "wait_loop br [0..<max_retries] d = (loaded, d1)" by force
    show "length res < L + m"
    proof (cases loaded)
      case False
      with body w y have "res = df" by simp
      with jc lt show ?thesis by simp
    next
      case True
      show ?thesis
      proof (cases "scrape_boxes country (page_boxes br d1) df job_count")
        case (Inl e)
        with body w True y show ?thesis by simp
      next
        case (Inr p)
        obtain df' job_count' where p: "p = (df', job_count')" by (cases p)
        from Inr p scrape_boxes_count
        have c: "job_count' = job_count + length (page_boxes br d1)"
          "length df' = length df + length (page_boxes br d1)"
          by blast+
        from m have pm: "length (page_boxes br d1) \<le> m" by blast
        from c jc have jc': "job_count' = length df'" by simp
        from c jc lt pm have b: "length df' < L + m" by simp
        show ?thesis
        proof (cases "stop_check job_count' total_jobs")
          case (Inl e)
          with body w True Inr p y show ?thesis by simp
        next
          case stop: (Inr stop)
          show ?thesis
          proof (cases stop)
            case True
            with body w \<open>loaded\<close> Inr p stop y have "res = df'" by simp
            with b show ?thesis by simp
          next
            case False
            with stop L have lt': "job_count' < L" by simp
            obtain moved d2 where n: "navigate_to_next_page br d1 = (moved, d2)" by force
            show ?thesis
            proof (cases moved)
              case False
              with body w \<open>loaded\<close> Inr p stop \<open>\<not> stop\<close> n y have "res = df'" by simp
              with b show ?thesis by simp
            next
              case True
              with body w \<open>loaded\<close> Inr p stop \<open>\<not> stop\<close> n
              have "f br country total_jobs d2 df' job_count' = Some y" by simp
              from IH [OF this] m L jc' lt' y show ?thesis by blast
            qed
          qed
        qed
      qed
    qed
  qed
qed

lemma stop_check_ceiling: "max_jobs \<le> job_count \<Longrightarrow> stop_check job_count total_jobs = Inr True"
  by (simp add: stop_check_def)

lemma stop_check_below:
  "job_count < max_jobs \<Longrightarrow> total_jobs \<noteq> ''Unknown'' \<Longrightarrow>
     stop_check job_count total_jobs =
       (case py_int total_jobs of
          None \<Rightarrow> Inl ValueError
        | Some n \<Rightarrow> Inr (n \<le> int job_count))"
  by (simp add: stop_check_def)

lemma stop_check_False_ceiling: "stop_check j total_jobs = Inr False \<Longrightarrow> j < max_jobs"
  by (auto simp: stop_check_def split: if_splits)

lemma stop_check_False_known:
  "total_jobs \<noteq> ''Unknown'' \<Longrightarrow> py_int total_jobs = Some n \<Longrightarrow>
     stop_check j total_jobs = Inr False \<Longrightarrow> j < nat (max 1 n)"
  by (auto simp: stop_check_def split: if_splits)

lemma scrape_loop_step:
  assumes "wait_loop br [0..<max_retries] d = (True, d1)"
    and "scrape_boxes country (page_boxes br d1) df job_count = Inr (df', job_count')"
  shows "scrape_loop br country total_jobs d df job_count =
     (case stop_check job_count' total_jobs of
        Inl e \<Rightarrow> Some (Inl e, d1)
      | Inr stop \<Rightarrow>
          if stop then Some (Inr df', d1)
          else
            (case navigate_to_next_page br d1 of
               (moved, d2) \<Rightarrow>
                 if \<not> moved then Some (Inr df', d2)
                 else scrape_loop br country total_jobs d2 df' job_count'))"
  by (subst scrape_loop.simps) (simp add: assms)

lemma scrape_loop_stops:
  assumes "wait_loop br [0..<max_retries] d = (True, d1)"
    and "scrape_boxes country (page_boxes br d1) df job_count = Inr (df', job_count')"
    and "max_jobs \<le> job_count'
      \<or> (total_jobs \<noteq> ''Unknown'' \<and> py_int total_jobs = Some n \<and> n \<le> int job_count')"
  shows "scrape_loop br country total_jobs d df job_count = Some (Inr df', d1)"
proof -
  from assms(3) have "stop_check job_count' total_jobs = Inr True"
    by (auto simp: stop_check_def)
  then show ?thesis by (simp add: scrape_loop_step [OF assms(1,2)])
qed

lemma scrape_loop_raises:
  assumes "wait_loop br [0..<max_retries] d = (True, d1)"
    and "scrape_boxes country (page_boxes br d1) df job_count = Inr (df', job_count')"
    and "job_count' < max_jobs" and "total_jobs \<noteq> ''Unknown''" and "py_int total_jobs = None"
  shows "scrape_loop br country total_jobs d df job_count = Some (Inl ValueError, d1)"
proof -
  from assms(3-5) have "stop_check job_count' total_jobs = Inl ValueError"
    by (simp add: stop_check_below)
  then show ?thesis by (simp add: scrape_loop_step [OF assms(1,2)])
qed

lemma scrape_loop_terminates:
  assumes ne: "\<forall>d. page_boxes br d \<noteq> []"
  shows "max_jobs - job_count \<le> k \<Longrightarrow>
     \<exists>r. scrape_loop br country total_jobs d df job_count = Some r"
proof (induction k arbitrary: d df job_count)
  case 0
  obtain loaded d1 where w: "wait_loop br [0..<max_retries] d = (loaded, d1)" by force
  show ?case
  proof (cases loaded)
    case False
    with w show ?thesis by (subst scrape_loop.simps) simp
  next
    case True
    show ?thesis
    proof (cases "scrape_boxes country (page_boxes br d1) df job_count")
      case (Inl e)
      with w True show ?thesis by (subst scrape_loop.simps) simp
    next
      case (Inr p)
      obtain df' job_count' where p: "p = (df', job_count')" by (cases p)
      from Inr p scrape_boxes_count have "job_count' = job_count + length (page_boxes br d1)"
        by blast
      with "0.prems" have "max_jobs \<le> job_count'" by simp
      then have "stop_check job_count' total_jobs = Inr True" by (rule stop_check_ceiling)
      with w True Inr p show ?thesis by (simp add: scrape_loop_step)
    qed
  qed
next
  case (Suc k)
  obtain loaded d1 where w: "wait_loop br [0..<max_retries] d = (loaded, d1)" by force
  show ?case
  proof (cases loaded)
    case False
    with w show ?thesis by (subst scrape_loop.simps) simp
  next
    case True
    show ?thesis
    proof (cases "scrape_boxes country (page_boxes br d1) df job_count")
      case (Inl e)
      with w True show ?thesis by (subst scrape_loop.simps) simp
    next
      case (Inr p)
      obtain df' job_count' where p: "p = (df', job_count')" by (cases p)
      from Inr p scrape_boxes_count have "job_count' = job_count + length (page_boxes br d1)"
        by blast
      moreover from ne have "0 < length (page_boxes br d1)" by simp
      ultimately have "max_jobs - job_count' \<le> k" using Suc.prems by linarith
      then have rec: "\<exists>r. scrape_loop br country total_jobs d2 df' job_count' = Some r" for d2
        by (rule Suc.IH)
      from w True Inr p
      have step: "scrape_loop br country total_jobs d df job_count =
         (case stop_check job_count' total_jobs of
            Inl e \<Rightarrow> Some (Inl e, d1)
          | Inr stop \<Rightarrow>
              if stop then Some (Inr df', d1)
              else
                (case navigate_to_next_page br d1 of
                   (moved, d2) \<Rightarrow>
                     if \<not> moved then Some (Inr df', d2)
                     else scrape_loop br country total_jobs d2 df' job_count'))"
        by (simp add: scrape_loop_step)
      obtain moved d2 where n: "navigate_to_next_page br d1 = (moved, d2)" by force
      from rec [of d2] show ?thesis
        unfolding step n by (cases "stop_check job_count' total_jobs") auto
    qed
  qed
qed

lemma scrape_loop_endless:
  assumes run: "scrape_loop br country total_jobs d df job_count = Some y"
  shows "\<not> (br = endless_browser (page_of []) \<and> total_jobs = ''Unknown'' \<and> job_count = 0)"
proof (rule scrape_loop.raw_induct
    [where P = "\<lambda>br country total_jobs d df job_count y.
       \<not> (br = endless_browser (page_of []) \<and> total_jobs = ''Unknown'' \<and> job_count = 0)",
     OF _ run])
  fix f :: "nat browser \<Rightarrow> string \<Rightarrow> string \<Rightarrow> nat \<Rightarrow> job list \<Rightarrow> nat
      \<Rightarrow> ((py_error + job list) \<times> nat) option"
  fix br :: "nat browser" and country total_jobs :: string and d :: nat and df :: "job list"
    and job_count :: nat and y :: "(py_error + job list) \<times> nat"
  assume IH: "\<And>br country total_jobs d df job_count y.
      f br country total_jobs d df job_count = Some y \<Longrightarrow>
      \<not> (br = endless_browser (page_of []) \<and> total_jobs = ''Unknown'' \<and> job_count = 0)"
  assume body: "(case wait_loop br [0..<max_retries] d of
        (loaded, d1) \<Rightarrow>
          if \<not> loaded then Some (Inr df, d1)
          else
            (case scrape_boxes country (page_boxes br d1) df job_count of
               Inl e \<Rightarrow> Some (Inl e, d1)
             | Inr (df', job_count') \<Rightarrow>
                 (case stop_check job_count' total_jobs of
                    Inl e \<Rightarrow> Some (Inl e, d1)
                  | Inr stop \<Rightarrow>
                      if stop then Some (Inr df', d1)
                      else
                        (case navigate_to_next_page br d1 of
                           (moved, d2) \<Rightarrow>
                             if \<not> moved then Some (Inr df', d2)
                             else f br country total_jobs d2 df' job_count')))) = Some y"
  show "\<not> (br = endless_browser (page_of []) \<and> total_jobs = ''Unknown'' \<and> job_count = 0)"
  proof
    assume a: "br = endless_browser (page_of []) \<and> total_jobs = ''Unknown'' \<and> job_count = 0"
    have w: "wait_loop br [0..<max_retries] d = (True, d)"
      using a by (simp add: upt_max_retries endless_browser_def)
    have b: "page_boxes br d = []"
      using a by (simp add: page_boxes_def endless_browser_def page_of_def bs_find_all_def)
    have s: "stop_check job_count total_jobs = Inr False"
      using a by (simp add: stop_check_def max_jobs_def)
    have n: "navigate_to_next_page br d = (True, d + 1)"
      using a by (simp add: navigate_to_next_page_def endless_browser_def)
    from body have "f br country total_jobs (d + 1) df job_count = Some y"
      by (simp add: w b s n)
    from IH [OF this] a show False by simp
  qed
qed

lemma scrape_job_data_endless:
  "scrape_job_data (endless_browser (page_of [])) country ''Unknown'' d = None"
proof (cases "scrape_job_data (endless_browser (page_of [])) country ''Unknown'' d")
  case None
  then show ?thesis .
next
  case (Some y)
  then have "scrape_loop (endless_browser (page_of [])) country ''Unknown'' d [] 0 = Some y"
    by (simp add: scrape_job_data_def)
  from scrape_loop_endless [OF this] show ?thesis by simp
qed

text \<open>
  Claim C5. When the wait for listings times out three times in a row (the page is
  reloaded after the first and after the second timeout), the loop ends at once and
  returns the records collected so far, without raising: from any point of the run the
  accumulator as it is, and the empty collection when this happens on the first page.
  The session is left in the state of the third timeout: two reloads, no third.
\<close>

theorem scrape_loop_retries_exhausted:
  assumes "wait_for_listings br d = (False, d1)"
    and "wait_for_listings br (refresh br d1) = (False, d2)"
    and "wait_for_listings br (refresh br d2) = (False, d3)"
  shows "scrape_loop br country total_jobs d df job_count = Some (Inr df, d3)
    \<and> scrape_job_data br country total_jobs d = Some (Inr [], d3)"
proof -
  have w: "wait_loop br [0..<max_retries] d = (False, d3)"
    unfolding upt_max_retries using assms by (simp add: max_retries_def)
  have "scrape_loop br country total_jobs d df' n = Some (Inr df', d3)" for df' n
    by (subst scrape_loop.simps) (simp add: w)
  then show ?thesis by (simp add: scrape_job_data_def)
qed

text \<open>
  The hypotheses of C5 hold in the session where no listing ever appears.
\<close>

theorem scrape_loop_retries_exhausted_witness:
  "wait_for_listings stalled_browser 0 = (False, 0)
   \<and> wait_for_listings stalled_browser (refresh stalled_browser 0) = (False, 1)
   \<and> wait_for_listings stalled_browser (refresh stalled_browser 1) = (False, 2)
   \<and> scrape_job_data stalled_browser ''https://www.indeed.com'' ''120'' 0 = Some (Inr [], 2)"
proof -
  have h1: "wait_for_listings stalled_browser 0 = (False, 0)"
    by (simp add: stalled_browser_def)
  have h2: "wait_for_listings stalled_browser (refresh stalled_browser 0) = (False, 1)"
    by (simp add: stalled_browser_def)
  have h3: "wait_for_listings stalled_browser (refresh stalled_browser 1) = (False, 2)"
    by (simp add: stalled_browser_def)
  from scrape_loop_retries_exhausted [OF h1 h2 h3] h1 h2 h3 show ?thesis by simp
qed

lemma extract_job_data_listing:
  "extract_job_data (listing href) country = Inr (bare_job (country @ href))"
  by (simp add: extract_job_data_def extract_link_def listing_def bs_find_def text_or_na_def
      extract_date_posted_def extract_job_type_def has_class_def has_attr_def bare_job_def)

lemma scrape_boxes_replicate:
  "extract_job_data box country = Inr row \<Longrightarrow>
     scrape_boxes country (replicate n box) df job_count
       = Inr (df @ replicate n row, job_count + n)"
proof (induction n arbitrary: df job_count)
  case 0
  then show ?case by simp
next
  case (Suc n)
  then show ?case by (simp add: replicate_app_Cons_same)
qed

lemma listing_is_box:
  "is_tag ''div'' (listing href) \<and> has_class ''job_seen_beacon'' (listing href)"
proof -
  have "str_split ''job_seen_beacon'' = [''job_seen_beacon'']" by code_simp
  then show ?thesis by (simp add: listing_def has_class_def)
qed

lemma listing_inner:
  "filter (\<lambda>n. is_tag ''div'' n \<and> has_class ''job_seen_beacon'' n)
     (descendants (listing href)) = []"
  by (simp add: listing_def)

lemma page_boxes_replicate:
  "page_boxes (paged_browser [page_of (replicate n (listing href))]) 0
     = replicate n (listing href)"
proof -
  have "filter (\<lambda>n. is_tag ''div'' n \<and> has_class ''job_seen_beacon'' n)
      (concat (map (\<lambda>c. c # descendants c) (replicate n (listing href))))
      = replicate n (listing href)"
    by (induction n) (simp_all add: listing_is_box listing_inner)
  then show ?thesis
    by (simp add: page_boxes_def paged_browser_def page_of_def bs_find_all_def)
qed

lemma wait_loop_paged:
  "wait_loop (paged_browser [page]) [0..<max_retries] 0 = (True, 0)"
  by (simp add: upt_max_retries paged_browser_def)

lemma scrape_job_data_one_page:
  assumes "max_jobs \<le> n"
  shows "scrape_job_data (paged_browser [page_of (replicate n (listing href))]) country
      total_jobs 0
    = Some (Inr (replicate n (bare_job (country @ href))), 0)"
proof -
  let ?br = "paged_browser [page_of (replicate n (listing href))]"
  have b: "scrape_boxes country (page_boxes ?br 0) [] 0
      = Inr (replicate n (bare_job (country @ href)), n)"
    using scrape_boxes_replicate
      [where n = n and df = "[]" and job_count = 0, OF extract_job_data_listing]
    by (simp add: page_boxes_replicate)
  show ?thesis
    unfolding scrape_job_data_def
    by (rule scrape_loop_stops [OF wait_loop_paged b]) (simp add: assms)
qed

text \<open>
  \<^verbatim>\<open>int\<close> does not skip the separator of code 31 that \<^verbatim>\<open>str.strip\<close> removes: a total such as
  \<^verbatim>\<open>"\x1f3"\<close> is refused, and the stop check raises on it.
\<close>

lemma py_int_separator:
  "py_int [CHR 0x1F, CHR ''3''] = None \<and> py_int '' 3 '' = Some 3
   \<and> strip [CHR 0x1F, CHR ''3''] = ''3''
   \<and> stop_check 5 [CHR 0x1F, CHR ''3''] = Inl ValueError"
  by code_simp

text \<open>
  Claim C10, amended. At a stop check where the count is below \<^verbatim>\<open>max_jobs\<close> and
  \<^verbatim>\<open>total_jobs\<close> is not \<^verbatim>\<open>"Unknown"\<close>, the condition converts \<^verbatim>\<open>total_jobs\<close> with \<^verbatim>\<open>int()\<close>. So for
  every \<^verbatim>\<open>total_jobs\<close> that is neither \<^verbatim>\<open>"Unknown"\<close> nor accepted by \<^verbatim>\<open>int()\<close>, a pass of the loop
  that reaches its stop check (the wait for listings ends in time, every listing is
  extracted) with fewer than \<^verbatim>\<open>max_jobs\<close> records raises \<^verbatim>\<open>ValueError\<close> there and returns
  nothing; in particular the first pass of \<^verbatim>\<open>scrape_job_data\<close>.
\<close>

theorem stop_check_int_raises:
  "(j < max_jobs \<and> total_jobs \<noteq> ''Unknown'' \<longrightarrow>
      stop_check j total_jobs =
        (case py_int total_jobs of
           None \<Rightarrow> Inl ValueError
         | Some n \<Rightarrow> Inr (n \<le> int j)))
   \<and> (total_jobs \<noteq> ''Unknown'' \<and> py_int total_jobs = None
        \<and> wait_loop br [0..<max_retries] d = (True, d1)
        \<and> scrape_boxes country (page_boxes br d1) df job_count = Inr (df', job_count')
        \<and> job_count' < max_jobs \<longrightarrow>
        scrape_loop br country total_jobs d df job_count = Some (Inl ValueError, d1))
   \<and> (total_jobs \<noteq> ''Unknown'' \<and> py_int total_jobs = None
        \<and> wait_loop br [0..<max_retries] d = (True, d1)
        \<and> scrape_boxes country (page_boxes br d1) [] 0 = Inr (df', job_count')
        \<and> job_count' < max_jobs \<longrightarrow>
        scrape_job_data br country total_jobs d = Some (Inl ValueError, d1))"
  by (simp add: stop_check_below scrape_loop_raises scrape_job_data_def)

text \<open>
  The hypotheses of C10 hold on a first page with one listing and the total \<^verbatim>\<open>"jobs"\<close>.
\<close>

theorem stop_check_int_raises_witness:
  "(1::nat) < max_jobs \<and> ''jobs'' \<noteq> ''Unknown'' \<and> py_int ''jobs'' = None
   \<and> wait_loop (paged_browser [page_of [listing ''/rc/clk?jk=1'']]) [0..<max_retries] 0
       = (True, 0)
   \<and> scrape_boxes ''https://www.indeed.com''
        (page_boxes (paged_browser [page_of [listing ''/rc/clk?jk=1'']]) 0) [] 0
       = Inr ([bare_job ''https://www.indeed.com/rc/clk?jk=1''], 1)
   \<and> stop_check 1 ''jobs'' = Inl ValueError
   \<and> scrape_job_data (paged_browser [page_of [listing ''/rc/clk?jk=1'']])
        ''https://www.indeed.com'' ''jobs'' 0
       = Some (Inl ValueError, 0)"
proof -
  let ?br = "paged_browser [page_of [listing ''/rc/clk?jk=1'']]"
  have h1: "(1::nat) < max_jobs" by (simp add: max_jobs_def)
  have h2: "''jobs'' \<noteq> ''Unknown''" by simp
  have h3: "py_int ''jobs'' = None" by code_simp
  have h4: "wait_loop ?br [0..<max_retries] 0 = (True, 0)" by (rule wait_loop_paged)
  have h5: "scrape_boxes ''https://www.indeed.com'' (page_boxes ?br 0) [] 0
       = Inr ([bare_job ''https://www.indeed.com/rc/clk?jk=1''], 1)"
    using scrape_boxes_replicate
        [where n = 1 and df = "[]" and job_count = 0,
         OF extract_job_data_listing
           [where href = "''/rc/clk?jk=1''" and country = "''https://www.indeed.com''"]]
      page_boxes_replicate [where n = 1 and href = "''/rc/clk?jk=1''"]
    by simp
  note t = stop_check_int_raises
      [where j = 1 and total_jobs = "''jobs''" and br = ?br and d = 0 and ?d1.0 = 0
         and country = "''https://www.indeed.com''" and df = "[]" and job_count = 0
         and df' = "[bare_job ''https://www.indeed.com/rc/clk?jk=1'']" and job_count' = 1]
  from t h1 h2 h3 have c1: "stop_check 1 ''jobs'' = Inl ValueError" by simp
  from t h1 h2 h3 h4 h5
  have c2: "scrape_job_data ?br ''https://www.indeed.com'' ''jobs'' 0 = Some (Inl ValueError, 0)"
    by blast
  from h1 h2 h3 h4 h5 c1 c2 show ?thesis by blast
qed

text \<open>
  Claim C10 as stated fails when the first page already holds \<^verbatim>\<open>max_jobs\<close> listings: the
  left operand of \<^verbatim>\<open>or\<close> is true, \<^verbatim>\<open>int(total_jobs)\<close> is never evaluated, and the loop returns
  the 15000 records for the total \<^verbatim>\<open>"jobs"\<close>, which \<^verbatim>\<open>int()\<close> refuses.
\<close>

theorem stop_check_short_circuit:
  "''jobs'' \<noteq> ''Unknown'' \<and> py_int ''jobs'' = None
   \<and> scrape_job_data (paged_browser [page_of (replicate 15000 (listing ''/rc/clk?jk=1''))])
        ''https://www.indeed.com'' ''jobs'' 0
       = Some (Inr (replicate 15000 (bare_job ''https://www.indeed.com/rc/clk?jk=1'')), 0)"
proof -
  have "py_int ''jobs'' = None" by code_simp
  moreover have "scrape_job_data
      (paged_browser [page_of (replicate 15000 (listing ''/rc/clk?jk=1''))])
      ''https://www.indeed.com'' ''jobs'' 0
    = Some (Inr (replicate 15000 (bare_job (''https://www.indeed.com'' @ ''/rc/clk?jk=1''))), 0)"
    by (rule scrape_job_data_one_page) (simp add: max_jobs_def)
  ultimately show ?thesis by simp
qed

lemma scrape_job_data_bound:
  assumes m: "\<forall>d. length (page_boxes br d) \<le> m"
    and run: "scrape_job_data br country total_jobs d = Some (Inr res, d')"
  shows "length res < max_jobs + m"
    and "total_jobs \<noteq> ''Unknown'' \<Longrightarrow> py_int total_jobs = Some n \<Longrightarrow>
      int (length res) < max 1 n + int m"
proof -
  from run have r: "scrape_loop br country total_jobs d [] 0 = Some (Inr res, d')"
    by (simp add: scrape_job_data_def)
  have "\<forall>j. stop_check j total_jobs = Inr False \<longrightarrow> j < max_jobs"
    using stop_check_False_ceiling by blast
  with scrape_loop_bound [OF r, of m max_jobs] m show "length res < max_jobs + m"
    by (simp add: max_jobs_def)
next
  assume k: "total_jobs \<noteq> ''Unknown''" "py_int total_jobs = Some n"
  from run have r: "scrape_loop br country total_jobs d [] 0 = Some (Inr res, d')"
    by (simp add: scrape_job_data_def)
  have "\<forall>j. stop_check j total_jobs = Inr False \<longrightarrow> j < nat (max 1 n)"
    using stop_check_False_known [OF k] by blast
  with scrape_loop_bound [OF r, of m "nat (max 1 n)"] m
  have "length res < nat (max 1 n) + m" by simp
  then show "int (length res) < max 1 n + int m" by linarith
qed

text \<open>
  Claim C1, amended. The stop condition is tested once per page, after all listings of
  the page have been appended. So when no page holds more than \<open>m\<close> listings, a returned
  collection is shorter than \<^verbatim>\<open>max_jobs\<close> plus \<open>m\<close>, and, when the expected count is known
  to be \<open>n\<close>, shorter than the larger of 1 and \<open>n\<close>, plus \<open>m\<close>. At a stop check where the
  count has reached \<^verbatim>\<open>max_jobs\<close> or a known expected count, the loop returns the collection
  at once, the session left where the page was read. The loop ends (with a collection or
  an exception) whenever every page holds at least one listing, the expected count known
  or not.
\<close>

theorem scrape_job_data_bound_and_termination:
  "((\<forall>d. length (page_boxes br d) \<le> m)
      \<and> scrape_job_data br country total_jobs d = Some (Inr res, d') \<longrightarrow>
      length res < max_jobs + m
      \<and> (total_jobs \<noteq> ''Unknown'' \<and> py_int total_jobs = Some n \<longrightarrow>
           int (length res) < max 1 n + int m))
   \<and> (wait_loop br [0..<max_retries] d = (True, d1)
        \<and> scrape_boxes country (page_boxes br d1) df job_count = Inr (df', job_count')
        \<and> (max_jobs \<le> job_count'
             \<or> (total_jobs \<noteq> ''Unknown'' \<and> py_int total_jobs = Some n
                 \<and> n \<le> int job_count')) \<longrightarrow>
        scrape_loop br country total_jobs d df job_count = Some (Inr df', d1))
   \<and> ((\<forall>d. page_boxes br d \<noteq> []) \<longrightarrow>
        (\<exists>r. scrape_job_data br country total_jobs d = Some r))"
proof (intro conjI impI)
  assume a: "(\<forall>d. length (page_boxes br d) \<le> m)
      \<and> scrape_job_data br country total_jobs d = Some (Inr res, d')"
  then have m: "\<forall>d. length (page_boxes br d) \<le> m"
    and run: "scrape_job_data br country total_jobs d = Some (Inr res, d')"
    by (rule conjunct1, rule conjunct2)
  show "length res < max_jobs + m"
    by (rule scrape_job_data_bound(1) [OF m run])
  assume k: "total_jobs \<noteq> ''Unknown'' \<and> py_int total_jobs = Some n"
  show "int (length res) < max 1 n + int m"
    by (rule scrape_job_data_bound(2) [OF m run k [THEN conjunct1] k [THEN conjunct2]])
next
  assume "wait_loop br [0..<max_retries] d = (True, d1)
        \<and> scrape_boxes country (page_boxes br d1) df job_count = Inr (df', job_count')
        \<and> (max_jobs \<le> job_count'
             \<or> (total_jobs \<noteq> ''Unknown'' \<and> py_int total_jobs = Some n
                 \<and> n \<le> int job_count'))"
  then have w: "wait_loop br [0..<max_retries] d = (True, d1)"
    and b: "scrape_boxes country (page_boxes br d1) df job_count = Inr (df', job_count')"
    and s: "max_jobs \<le> job_count'
      \<or> (total_jobs \<noteq> ''Unknown'' \<and> py_int total_jobs = Some n \<and> n \<le> int job_count')"
    by (rule conjunct1, rule conjunct2 [THEN conjunct1], rule conjunct2 [THEN conjunct2])
  show "scrape_loop br country total_jobs d df job_count = Some (Inr df', d1)"
    by (rule scrape_loop_stops [OF w b s])
next
  assume ne: "\<forall>d. page_boxes br d \<noteq> []"
  have "max_jobs - 0 \<le> max_jobs" by simp
  then show "\<exists>r. scrape_job_data br country total_jobs d = Some r"
    unfolding scrape_job_data_def by (rule scrape_loop_terminates [OF ne])
qed

lemma page_boxes_endless:
  "page_boxes (endless_browser (page_of [listing href])) d = [listing href]"
  using listing_is_box [of href] listing_inner [of href]
  by (simp add: page_boxes_def endless_browser_def page_of_def bs_find_all_def)

lemma wait_loop_endless:
  "wait_loop (endless_browser page) [0..<max_retries] d = (True, d)"
  by (simp add: upt_max_retries endless_browser_def)

text \<open>
  The hypotheses of C1 hold in the session that shows one listing on every page, with
  the expected count 2: the run returns two records after the second page; with the
  count unknown the run still ends.
\<close>

theorem scrape_job_data_bound_and_termination_witness:
  "(\<forall>d. length (page_boxes (endless_browser (page_of [listing ''/rc/clk?jk=1''])) d) \<le> 1)
   \<and> (\<forall>d. page_boxes (endless_browser (page_of [listing ''/rc/clk?jk=1''])) d \<noteq> [])
   \<and> ''2'' \<noteq> ''Unknown'' \<and> py_int ''2'' = Some 2
   \<and> scrape_job_data (endless_browser (page_of [listing ''/rc/clk?jk=1'']))
        ''https://www.indeed.com'' ''2'' 0
      = Some (Inr [bare_job ''https://www.indeed.com/rc/clk?jk=1'',
                   bare_job ''https://www.indeed.com/rc/clk?jk=1''], 1)
   \<and> length [bare_job ''https://www.indeed.com/rc/clk?jk=1'',
               bare_job ''https://www.indeed.com/rc/clk?jk=1''] < max_jobs + 1
   \<and> int (length [bare_job ''https://www.indeed.com/rc/clk?jk=1'',
               bare_job ''https://www.indeed.com/rc/clk?jk=1'']) < max 1 2 + int 1
   \<and> wait_loop (endless_browser (page_of [listing ''/rc/clk?jk=1''])) [0..<max_retries] 1
      = (True, 1)
   \<and> scrape_boxes ''https://www.indeed.com''
        (page_boxes (endless_browser (page_of [listing ''/rc/clk?jk=1''])) 1)
        [bare_job ''https://www.indeed.com/rc/clk?jk=1''] 1
      = Inr ([bare_job ''https://www.indeed.com/rc/clk?jk=1'',
              bare_job ''https://www.indeed.com/rc/clk?jk=1''], 2)
   \<and> (2::int) \<le> int 2
   \<and> scrape_loop (endless_browser (page_of [listing ''/rc/clk?jk=1'']))
        ''https://www.indeed.com'' ''2'' 1 [bare_job ''https://www.indeed.com/rc/clk?jk=1''] 1
      = Some (Inr [bare_job ''https://www.indeed.com/rc/clk?jk=1'',
                   bare_job ''https://www.indeed.com/rc/clk?jk=1''], 1)
   \<and> scrape_job_data (endless_browser (page_of [listing ''/rc/clk?jk=1'']))
        ''https://www.indeed.com'' ''Unknown'' 0 \<noteq> None"
proof -
  let ?br = "endless_browser (page_of [listing ''/rc/clk?jk=1''])"
  let ?c = "''https://www.indeed.com''"
  let ?j = "bare_job ''https://www.indeed.com/rc/clk?jk=1''"
  have h1: "\<forall>d. length (page_boxes ?br d) \<le> 1" by (simp add: page_boxes_endless)
  have h2: "\<forall>d. page_boxes ?br d \<noteq> []" by (simp add: page_boxes_endless)
  have h3: "''2'' \<noteq> ''Unknown''" by simp
  have h4: "py_int ''2'' = Some 2" by code_simp
  have e: "extract_job_data (listing ''/rc/clk?jk=1'') ?c = Inr ?j"
    using extract_job_data_listing [of "''/rc/clk?jk=1''" ?c] by simp
  have b0: "scrape_boxes ?c (page_boxes ?br 0) [] 0 = Inr ([?j], 1)"
    by (simp add: page_boxes_endless e)
  have b1: "scrape_boxes ?c (page_boxes ?br 1) [?j] 1 = Inr ([?j, ?j], 2)"
    by (simp add: page_boxes_endless e)
  have w1: "wait_loop ?br [0..<max_retries] 1 = (True, 1)" by (rule wait_loop_endless)
  have s1: "stop_check 1 ''2'' = Inr False"
    by (simp add: stop_check_def max_jobs_def h4)
  have n0: "navigate_to_next_page ?br 0 = (True, 1)"
    by (simp add: navigate_to_next_page_def endless_browser_def)
  note t = scrape_job_data_bound_and_termination
    [where br = ?br and m = 1 and country = ?c and total_jobs = "''2''" and d = 1
       and ?d1.0 = 1 and df = "[?j]" and job_count = 1 and df' = "[?j, ?j]"
       and job_count' = 2 and n = 2 and res = "[?j, ?j]" and d' = 1]
  note u = scrape_job_data_bound_and_termination
    [where br = ?br and m = 1 and country = ?c and total_jobs = "''2''" and d = 0
       and n = 2 and res = "[?j, ?j]" and d' = 1]
  note v = scrape_job_data_bound_and_termination
    [where br = ?br and country = ?c and total_jobs = "''Unknown''" and d = 0]
  from t w1 b1 h3 h4
  have c2: "scrape_loop ?br ?c ''2'' 1 [?j] 1 = Some (Inr [?j, ?j], 1)" by simp
  have run: "scrape_job_data ?br ?c ''2'' 0 = Some (Inr [?j, ?j], 1)"
    unfolding scrape_job_data_def
    using scrape_loop_step [OF wait_loop_endless b0, of "''2''"] s1 n0 c2 by simp
  from u h1 run h3 h4
  have c1: "length [?j, ?j] < max_jobs + 1" "int (length [?j, ?j]) < max 1 2 + int 1"
    by blast+
  from v h2 have c3: "scrape_job_data ?br ?c ''Unknown'' 0 \<noteq> None" by blast
  have c4: "(2::int) \<le> int 2" by simp
  from h1 h2 h3 h4 run c1 w1 b1 c4 c2 c3 show ?thesis by (intro conjI)
qed

text \<open>
  Claim C1 as stated fails twice. A single page of 15001 listings is appended whole
  before the first stop check, so the returned collection is longer than the larger of
  the expected count (0 when unknown) and 15000. And in a session whose pages hold no
  listing and whose next control always works, the count never grows and the loop never
  ends.
\<close>

theorem scrape_job_data_overshoot_and_loop:
  "scrape_job_data (paged_browser [page_of (replicate 15001 (listing ''/rc/clk?jk=1''))])
        ''https://www.indeed.com'' ''Unknown'' 0
      = Some (Inr (replicate 15001 (bare_job ''https://www.indeed.com/rc/clk?jk=1'')), 0)
   \<and> \<not> length (replicate 15001 (bare_job ''https://www.indeed.com/rc/clk?jk=1''))
         \<le> max 0 max_jobs
   \<and> scrape_job_data (endless_browser (page_of [])) ''https://www.indeed.com'' ''Unknown'' 0
      = None"
proof -
  have "scrape_job_data
      (paged_browser [page_of (replicate 15001 (listing ''/rc/clk?jk=1''))])
      ''https://www.indeed.com'' ''Unknown'' 0
    = Some (Inr (replicate 15001 (bare_job (''https://www.indeed.com'' @ ''/rc/clk?jk=1''))), 0)"
    by (rule scrape_job_data_one_page) (simp add: max_jobs_def)
  moreover have "\<not> length (replicate 15001 (bare_job ''https://www.indeed.com/rc/clk?jk=1''))
         \<le> max 0 max_jobs"
    by (simp add: max_jobs_def)
  ultimately show ?thesis by (simp add: scrape_job_data_endless)
qed

end
